theory Spec2Isabelle
  imports Main "HOL-Library.AList" "HOL-Library.Char_ord" "HOL-Library.List_Lexorder"
    "HOL-Library.Product_Lexorder"
begin

section \<open>The key-value store behind \<open>lib/upstash.ts\<close>\<close>

text \<open>
  The program talks to one Redis keyspace through the Upstash client. A name of the
  keyspace holds a hash (\<open>hostname:links\<close>), a sorted set
  (\<open>hostname:links:timestamps[:userId]\<close>, \<open>hostname:clicks:key\<close>,
  \<open>hostname:root:clicks\<close>) or a scalar with a time to live (\<open>usage:hostname\<close>).
  Names are built by string concatenation, exactly as the template literals of the
  source build them, so two collections alias whenever their names coincide.

  The commands follow the Redis semantics the program relies on: a command on a name
  of the wrong type fails with \<open>WRONGTYPE\<close> and changes nothing, a hash or sorted set that
  loses its last element disappears, \<open>RENAME\<close> fails on an absent source and replaces the
  destination. Sorted-set members are the strings Redis stores; scores are integers
  (millisecond timestamps).
\<close>

record link_meta =
  url :: string
  title :: string
  timestamp :: int

datatype rvalue =
    Hash "(string \<times> link_meta) list"
  | ZSet "(string \<times> int) list"
  | Scalar int nat

type_synonym store = "string \<Rightarrow> rvalue option"

datatype error = WRONGTYPE | NoSuchKey | TypeError

text \<open>A call either throws or returns; either way the store it leaves is given.\<close>

type_synonym 'a outcome = "(error + 'a) \<times> store"

subsection \<open>Hash commands\<close>

definition hsetnx :: "string \<Rightarrow> string \<Rightarrow> link_meta \<Rightarrow> store \<Rightarrow> int outcome" where
  "hsetnx name field v S =
     (case S name of
        None \<Rightarrow> (Inr 1, S(name \<mapsto> Hash [(field, v)]))
      | Some (Hash h) \<Rightarrow>
          (if map_of h field = None
           then (Inr 1, S(name \<mapsto> Hash (AList.update field v h)))
           else (Inr 0, S))
      | Some _ \<Rightarrow> (Inl WRONGTYPE, S))"

definition hexists :: "string \<Rightarrow> string \<Rightarrow> store \<Rightarrow> error + int" where
  "hexists name field S =
     (case S name of
        None \<Rightarrow> Inr 0
      | Some (Hash h) \<Rightarrow> Inr (if map_of h field = None then 0 else 1)
      | Some _ \<Rightarrow> Inl WRONGTYPE)"

definition hset :: "string \<Rightarrow> string \<Rightarrow> link_meta \<Rightarrow> store \<Rightarrow> int outcome" where
  "hset name field v S =
     (case S name of
        None \<Rightarrow> (Inr 1, S(name \<mapsto> Hash [(field, v)]))
      | Some (Hash h) \<Rightarrow>
          (Inr (if map_of h field = None then 1 else 0),
           S(name \<mapsto> Hash (AList.update field v h)))
      | Some _ \<Rightarrow> (Inl WRONGTYPE, S))"

definition hdel :: "string \<Rightarrow> string \<Rightarrow> store \<Rightarrow> int outcome" where
  "hdel name field S =
     (case S name of
        None \<Rightarrow> (Inr 0, S)
      | Some (Hash h) \<Rightarrow>
          (if map_of h field = None then (Inr 0, S)
           else (Inr 1,
                 (if AList.delete field h = [] then S(name := None)
                  else S(name \<mapsto> Hash (AList.delete field h)))))
      | Some _ \<Rightarrow> (Inl WRONGTYPE, S))"

text \<open>
  \<open>HMGET\<close> as the client returns it: an object from each requested field to its value
  or \<open>null\<close>, and \<open>null\<close> for the whole reply when no requested field has a value.
\<close>

definition hmget :: "string \<Rightarrow> string list \<Rightarrow> store
    \<Rightarrow> error + (string \<Rightarrow> link_meta option) option" where
  "hmget name fs S =
     (case S name of
        None \<Rightarrow> Inr None
      | Some (Hash h) \<Rightarrow>
          (if list_all (\<lambda>f. map_of h f = None) fs then Inr None
           else Inr (Some (\<lambda>f. if f \<in> set fs then map_of h f else None)))
      | Some _ \<Rightarrow> Inl WRONGTYPE)"

subsection \<open>Sorted-set commands\<close>

definition zadd :: "string \<Rightarrow> int \<Rightarrow> string \<Rightarrow> store \<Rightarrow> int outcome" where
  "zadd name score member S =
     (case S name of
        None \<Rightarrow> (Inr 1, S(name \<mapsto> ZSet [(member, score)]))
      | Some (ZSet z) \<Rightarrow>
          (Inr (if map_of z member = None then 1 else 0),
           S(name \<mapsto> ZSet (AList.update member score z)))
      | Some _ \<Rightarrow> (Inl WRONGTYPE, S))"

definition zrem :: "string \<Rightarrow> string \<Rightarrow> store \<Rightarrow> int outcome" where
  "zrem name member S =
     (case S name of
        None \<Rightarrow> (Inr 0, S)
      | Some (ZSet z) \<Rightarrow>
          (if map_of z member = None then (Inr 0, S)
           else (Inr 1,
                 (if AList.delete member z = [] then S(name := None)
                  else S(name \<mapsto> ZSet (AList.delete member z)))))
      | Some _ \<Rightarrow> (Inl WRONGTYPE, S))"

definition zcard :: "string \<Rightarrow> store \<Rightarrow> error + int" where
  "zcard name S =
     (case S name of
        None \<Rightarrow> Inr 0
      | Some (ZSet z) \<Rightarrow> Inr (int (length z))
      | Some _ \<Rightarrow> Inl WRONGTYPE)"

definition zcount :: "string \<Rightarrow> int \<Rightarrow> int \<Rightarrow> store \<Rightarrow> error + int" where
  "zcount name lo hi S =
     (case S name of
        None \<Rightarrow> Inr 0
      | Some (ZSet z) \<Rightarrow> Inr (int (length (filter (\<lambda>(m, s). lo \<le> s \<and> s \<le> hi) z)))
      | Some _ \<Rightarrow> Inl WRONGTYPE)"

text \<open>
  \<open>ZRANGE name 0 -1\<close>: every member, by ascending score, and members of equal score
  by their bytes; \<open>rev\<close> reverses the whole reply. The client parses each member of the
  reply as JSON where it can; the program is taken to receive the member as it is
  stored, which is what it receives for every member that is not a JSON text.
\<close>

definition zrange :: "string \<Rightarrow> bool \<Rightarrow> store \<Rightarrow> error + string list" where
  "zrange name rv S =
     (case S name of
        None \<Rightarrow> Inr []
      | Some (ZSet z) \<Rightarrow>
          Inr (let ms = map fst (sort_key (\<lambda>(m, s). (s, m)) z) in if rv then rev ms else ms)
      | Some _ \<Rightarrow> Inl WRONGTYPE)"

subsection \<open>Keyspace and scalar commands\<close>

definition rename :: "string \<Rightarrow> string \<Rightarrow> store \<Rightarrow> unit outcome" where
  "rename src dst S =
     (case S src of
        None \<Rightarrow> (Inl NoSuchKey, S)
      | Some v \<Rightarrow> (Inr (), (S(src := None))(dst \<mapsto> v)))"

definition get :: "string \<Rightarrow> store \<Rightarrow> error + int option" where
  "get name S =
     (case S name of
        None \<Rightarrow> Inr None
      | Some (Scalar v ttl) \<Rightarrow> Inr (Some v)
      | Some _ \<Rightarrow> Inl WRONGTYPE)"

definition setex :: "string \<Rightarrow> nat \<Rightarrow> int \<Rightarrow> store \<Rightarrow> store" where
  "setex name ttl v S = S(name \<mapsto> Scalar v ttl)"

subsection \<open>Pipelines\<close>

text \<open>
  A pipeline is a list of commands sent as one request. The store runs every command, in
  order, whether or not an earlier one failed, and replies to each; \<open>exec\<close> of the
  client then throws the first error among the replies. There is no rollback. The
  program never executes an empty pipeline.
\<close>

datatype command =
    HDEL string string
  | HSET string string link_meta
  | ZREM string string
  | ZADD string int string
  | RENAME string string
  | ZCOUNT string int int

datatype reply = Num int | OK

fun run :: "command \<Rightarrow> store \<Rightarrow> reply outcome" where
  "run (HDEL name field) S = map_prod (map_sum id Num) id (hdel name field S)"
| "run (HSET name field v) S = map_prod (map_sum id Num) id (hset name field v S)"
| "run (ZREM name member) S = map_prod (map_sum id Num) id (zrem name member S)"
| "run (ZADD name score member) S = map_prod (map_sum id Num) id (zadd name score member S)"
| "run (RENAME src dst) S = map_prod (map_sum id (\<lambda>_. OK)) id (rename src dst S)"
| "run (ZCOUNT name lo hi) S = (map_sum id Num (zcount name lo hi S), S)"

fun pipeline :: "command list \<Rightarrow> store \<Rightarrow> (error + reply) list \<times> store" where
  "pipeline [] S = ([], S)"
| "pipeline (c # cs) S =
     (case run c S of (r, S') \<Rightarrow>
        (case pipeline cs S' of (rs, S'') \<Rightarrow> (r # rs, S'')))"

fun first_error :: "(error + reply) list \<Rightarrow> error + reply list" where
  "first_error [] = Inr []"
| "first_error (Inl e # rs) = Inl e"
| "first_error (Inr r # rs) = map_sum id ((#) r) (first_error rs)"

definition exec :: "command list \<Rightarrow> store \<Rightarrow> reply list outcome" where
  "exec cs S = (case pipeline cs S of (rs, S') \<Rightarrow> (first_error rs, S'))"

section \<open>The program\<close>

text \<open>
  What \<open>lib/upstash.ts\<close> imports from other modules is a parameter of the model: the
  constants \<open>RESERVED_KEYS\<close> and \<open>LOCALHOST_GEO_DATA\<close> of \<open>lib/constants\<close>,
  \<open>getTitleFromUrl\<close> of \<open>lib/utils\<close>, the environment variable \<open>VERCEL\<close>, and the
  serialisation the client applies to a sorted-set member that is an object.
\<close>

datatype click_event = ClickEvent string string "string option" int
  \<comment> \<open>\<open>{ geo, ua, referer, timestamp }\<close>\<close>

record request =
  req_geo :: string
  req_ua :: string
  req_referer :: "string option"

record env =
  RESERVED_KEYS :: "string list"
  getTitleFromUrl :: "string \<Rightarrow> string"
  LOCALHOST_GEO_DATA :: string
  VERCEL :: "string option"
  stringify :: "click_event \<Rightarrow> string"

text \<open>An optional string argument is truthy when it is given and not empty.\<close>

definition truthy :: "string option \<Rightarrow> bool" where
  "truthy s = (case s of None \<Rightarrow> False | Some v \<Rightarrow> v \<noteq> [])"

text \<open>The string of an argument that has been tested truthy.\<close>

definition str :: "string option \<Rightarrow> string" where
  "str s = (case s of None \<Rightarrow> [] | Some v \<Rightarrow> v)"

datatype 'a nullable = Null | NonNull 'a

subsection \<open>Names of the collections\<close>

definition links_name :: "string \<Rightarrow> string" where
  "links_name hostname = hostname @ '':links''"

definition timestamps_name :: "string \<Rightarrow> string option \<Rightarrow> string" where
  "timestamps_name hostname userId =
     hostname @ '':links:timestamps'' @ (if truthy userId then '':'' @ str userId else [])"

definition clicks_name :: "string \<Rightarrow> string \<Rightarrow> string" where
  "clicks_name hostname k = hostname @ '':clicks:'' @ k"

definition root_clicks_name :: "string \<Rightarrow> string" where
  "root_clicks_name hostname = hostname @ '':root:clicks''"

definition usage_name :: "string \<Rightarrow> string" where
  "usage_name hostname = ''usage:'' @ hostname"

subsection \<open>Everything to do with keys\<close>

text \<open>
  Each \<open>Date.now()\<close> of the source is an argument of the function that reads it.
  \<open>nanoid()\<close> draws a seven-character string over the 62 alphanumeric characters.
\<close>

definition alphabet :: string where
  "alphabet = ''0123456789ABCDEFGHIJKLMNOPQRSTUVWXYZabcdefghijklmnopqrstuvwxyz''"

definition is_nanoid :: "string \<Rightarrow> bool" where
  "is_nanoid k = (length k = 7 \<and> list_all (\<lambda>c. c \<in> set alphabet) k)"

definition setKey :: "env \<Rightarrow> string \<Rightarrow> string \<Rightarrow> string \<Rightarrow> string option \<Rightarrow> int
    \<Rightarrow> store \<Rightarrow> int outcome" where
  "setKey env hostname k u t now S =
     hsetnx (links_name hostname) k
       \<lparr>url = u, title = (if truthy t then str t else getTitleFromUrl env u), timestamp = now\<rparr> S"

text \<open>
  \<open>setRandomKey\<close> recurses until a draw is set. The draws are the successive results of
  \<open>nanoid()\<close>, each with the \<open>Date.now()\<close> of its \<open>setKey\<close>; \<open>None\<close> is the call that
  has not returned when the given draws are used up.
\<close>

fun setRandomKey :: "env \<Rightarrow> string \<Rightarrow> string \<Rightarrow> string option \<Rightarrow> (string \<times> int) list
    \<Rightarrow> store \<Rightarrow> (int \<times> string) outcome option" where
  "setRandomKey env hostname u t [] S = None"
| "setRandomKey env hostname u t ((k, now) # draws) S =
     (case setKey env hostname k u t now S of
        (Inl e, S') \<Rightarrow> Some (Inl e, S')
      | (Inr response, S') \<Rightarrow>
          if response = 0 then setRandomKey env hostname u t draws S'
          else Some (Inr (response, k), S'))"

fun getRandomKey :: "string \<Rightarrow> string list \<Rightarrow> store \<Rightarrow> (error + string) option" where
  "getRandomKey hostname [] S = None"
| "getRandomKey hostname (k # draws) S =
     (case hexists (links_name hostname) k S of
        Inl e \<Rightarrow> Some (Inl e)
      | Inr response \<Rightarrow>
          if response = 1 then getRandomKey hostname draws S else Some (Inr k))"

definition checkIfKeyExists :: "env \<Rightarrow> string \<Rightarrow> string \<Rightarrow> store \<Rightarrow> error + int" where
  "checkIfKeyExists env hostname k S =
     (if hostname = ''dub.sh'' \<and> k \<in> set (RESERVED_KEYS env) then Inr 1
      else hexists (links_name hostname) k S)"

subsection \<open>Recording clicks\<close>

definition recordClick :: "env \<Rightarrow> string \<Rightarrow> request \<Rightarrow> string option \<Rightarrow> int \<Rightarrow> int
    \<Rightarrow> store \<Rightarrow> int outcome" where
  "recordClick env hostname req k now_score now_member S =
     zadd (if truthy k then clicks_name hostname (str k) else root_clicks_name hostname)
       now_score
       (stringify env
          (ClickEvent (if VERCEL env = Some ''1'' then req_geo req else LOCALHOST_GEO_DATA env)
             (req_ua req) (req_referer req) now_member))
       S"

subsection \<open>Links of a project\<close>

text \<open>
  An element of the list returned is \<open>{ key, ...metadata[key] }\<close>: the key, and the
  fields of its record when \<open>metadata[key]\<close> is one (spreading \<open>null\<close> adds nothing).
  When the whole reply \<open>metadata\<close> is \<open>null\<close>, reading \<open>metadata[key]\<close> throws a
  \<open>TypeError\<close>.
\<close>

type_synonym LinkProps = "string \<times> link_meta option"

definition getLinksForProject :: "string \<Rightarrow> string option \<Rightarrow> store \<Rightarrow> error + LinkProps list" where
  "getLinksForProject slug userId S =
     (case zrange (timestamps_name slug userId) True S of
        Inl e \<Rightarrow> Inl e
      | Inr keys \<Rightarrow>
          if keys = [] then Inr []
          else (case hmget (links_name slug) keys S of
                  Inl e \<Rightarrow> Inl e
                | Inr None \<Rightarrow> Inl TypeError
                | Inr (Some metadata) \<Rightarrow> Inr (map (\<lambda>k. (k, metadata k)) keys)))"

definition getLinkCountForProject :: "string \<Rightarrow> store \<Rightarrow> error + int" where
  "getLinkCountForProject slug S = zcard (timestamps_name slug None) S"

subsection \<open>Adding and editing a link\<close>

text \<open>
  The variable \<open>response\<close> of \<open>addLink\<close> holds the number \<open>setKey\<close> resolves to, or the
  object \<open>{ response, key }\<close> that \<open>setRandomKey\<close> resolves to; \<open>response === 1\<close> is
  strict equality with the number \<open>1\<close>. The arguments \<open>now_set\<close> and \<open>now_add\<close> are the
  \<open>Date.now()\<close> of \<open>setKey\<close> (for an explicit key) and of the \<open>zadd\<close>; \<open>draws\<close> are
  the draws of \<open>setRandomKey\<close>.
\<close>

datatype set_response = Number int | Object int string

definition addLink :: "env \<Rightarrow> string \<Rightarrow> string \<Rightarrow> string option \<Rightarrow> string option
    \<Rightarrow> string option \<Rightarrow> (string \<times> int) list \<Rightarrow> int \<Rightarrow> int \<Rightarrow> store
    \<Rightarrow> int nullable outcome option" where
  "addLink env hostname u k t userId draws now_set now_add S =
     (if hostname = ''dub.sh'' \<and> truthy k \<and> str k \<in> set (RESERVED_KEYS env)
      then Some (Inr Null, S)
      else
        (case (if truthy k
               then Some (map_prod (map_sum id Number) id
                            (setKey env hostname (str k) u t now_set S))
               else map_option (map_prod (map_sum id (\<lambda>(r, k'). Object r k')) id)
                      (setRandomKey env hostname u t draws S)) of
           None \<Rightarrow> None
         | Some (Inl e, S') \<Rightarrow> Some (Inl e, S')
         | Some (Inr response, S') \<Rightarrow>
             if response = Number 1
             then Some (map_prod (map_sum id NonNull) id
                          (zadd (timestamps_name hostname userId) now_add (str k) S'))
             else Some (Inr Null, S')))"

datatype edit_result = Count int | Replies "reply list"

text \<open>The commands \<open>editLink\<close> puts into its pipeline when the key changes.\<close>

definition editLink_batch :: "string \<Rightarrow> string \<Rightarrow> string \<Rightarrow> string \<Rightarrow> string \<Rightarrow> int
    \<Rightarrow> string option \<Rightarrow> int \<Rightarrow> command list" where
  "editLink_batch hostname k newKey u t ts userId numClicks =
     [HDEL (links_name hostname) k,
      HSET (links_name hostname) newKey \<lparr>url = u, title = t, timestamp = ts\<rparr>,
      ZREM (timestamps_name hostname userId) k,
      ZADD (timestamps_name hostname userId) ts newKey]
     @ (if numClicks > 0
        then [RENAME (clicks_name hostname k) (clicks_name hostname newKey)]
        else [])"

definition editLink :: "env \<Rightarrow> string \<Rightarrow> string \<Rightarrow> string \<Rightarrow> string \<Rightarrow> string \<Rightarrow> int
    \<Rightarrow> string option \<Rightarrow> store \<Rightarrow> edit_result nullable outcome" where
  "editLink env hostname k newKey u t ts userId S =
     (if k = newKey
      then map_prod (map_sum id (\<lambda>n. NonNull (Count n))) id
             (hset (links_name hostname) k \<lparr>url = u, title = t, timestamp = ts\<rparr> S)
      else if hostname = ''dub.sh'' \<and> newKey \<in> set (RESERVED_KEYS env) then (Inr Null, S)
      else
        (case checkIfKeyExists env hostname newKey S of
           Inl e \<Rightarrow> (Inl e, S)
         | Inr keyExists \<Rightarrow>
             if keyExists = 1 then (Inr Null, S)
             else
               (case zcard (clicks_name hostname k) S of
                  Inl e \<Rightarrow> (Inl e, S)
                | Inr numClicks \<Rightarrow>
                    map_prod (map_sum id (\<lambda>rs. NonNull (Replies rs))) id
                      (exec (editLink_batch hostname k newKey u t ts userId numClicks) S))))"

subsection \<open>Usage\<close>

text \<open>
  The calendar of \<open>Date\<close>, for a host whose local time is UTC: \<open>getFullYear\<close> and
  \<open>getMonth\<close> of a time value in milliseconds, and the time value of
  \<open>new Date(year, monthIndex, day)\<close>, which is midnight at the start of that day; a
  month index outside \<open>0..11\<close> and a day outside the month carry over, so that day \<open>0\<close>
  is the last day of the month before.
\<close>

definition days_from_civil :: "int \<Rightarrow> int \<Rightarrow> int \<Rightarrow> int" where
  "days_from_civil y m d =
     (let y' = (if m \<le> 2 then y - 1 else y);
          era = y' div 400;
          yoe = y' - era * 400;
          doy = (153 * (if m > 2 then m - 3 else m + 9) + 2) div 5 + d - 1;
          doe = yoe * 365 + yoe div 4 - yoe div 100 + doy
      in era * 146097 + doe - 719468)"

definition civil_from_days :: "int \<Rightarrow> int \<times> int \<times> int" where
  "civil_from_days z =
     (let z' = z + 719468;
          era = z' div 146097;
          doe = z' - era * 146097;
          yoe = (doe - doe div 1460 + doe div 36524 - doe div 146096) div 365;
          doy = doe - (365 * yoe + yoe div 4 - yoe div 100);
          mp = (5 * doy + 2) div 153;
          d = doy - (153 * mp + 2) div 5 + 1;
          m = (if mp < 10 then mp + 3 else mp - 9)
      in ((if m \<le> 2 then yoe + era * 400 + 1 else yoe + era * 400), m, d))"

definition getFullYear :: "int \<Rightarrow> int" where
  "getFullYear t = fst (civil_from_days (t div 86400000))"

definition getMonth :: "int \<Rightarrow> int" where
  "getMonth t = fst (snd (civil_from_days (t div 86400000))) - 1"

definition Date_getTime :: "int \<Rightarrow> int \<Rightarrow> int \<Rightarrow> int" where
  "Date_getTime year monthIndex day =
     (let y = (if 0 \<le> year \<and> year \<le> 99 then 1900 + year else year);
          ym = y * 12 + monthIndex
      in (days_from_civil (ym div 12) (ym mod 12 + 1) 1 + (day - 1)) * 86400000)"

text \<open>The number a reply adds to the sum of \<open>getUsage\<close>; its replies are all counts.\<close>

fun reply_num :: "reply \<Rightarrow> int" where
  "reply_num (Num n) = n"
| "reply_num OK = 0"

text \<open>
  \<open>billingCycleStart\<close> is the time value of the optional date; \<open>now\<close> is the clock the
  computation reads (\<open>Date.now()\<close> or \<open>new Date()\<close>). \<open>compute_usage\<close> is the part
  of \<open>getUsage\<close> after the cache lookup; the cached usage is tested for truthiness.
\<close>

definition billing_window :: "int option \<Rightarrow> int \<Rightarrow> int \<times> int" where
  "billing_window billingCycleStart now =
     (case billingCycleStart of
        Some b \<Rightarrow> (b, now)
      | None \<Rightarrow>
          (Date_getTime (getFullYear now) (getMonth now) 1,
           Date_getTime (getFullYear now) (getMonth now + 1) 0))"

definition compute_usage :: "string \<Rightarrow> int option \<Rightarrow> int \<Rightarrow> store \<Rightarrow> int outcome" where
  "compute_usage hostname billingCycleStart now S =
     (case billing_window billingCycleStart now of (firstDay, lastDay) \<Rightarrow>
        (case zrange (timestamps_name hostname None) False S of
           Inl e \<Rightarrow> (Inl e, S)
         | Inr links \<Rightarrow>
             (case (if links \<noteq> []
                    then exec (map (\<lambda>link. ZCOUNT (clicks_name hostname link)
                                            firstDay lastDay) links) S
                    else (Inr [], S)) of
                (Inl e, S') \<Rightarrow> (Inl e, S')
              | (Inr results, S') \<Rightarrow>
                  (let usage = foldl (\<lambda>acc curr. acc + reply_num curr) 0 results
                   in (Inr usage, setex (usage_name hostname) 3600 usage S')))))"

definition getUsage :: "string \<Rightarrow> int option \<Rightarrow> int \<Rightarrow> store \<Rightarrow> int outcome" where
  "getUsage hostname billingCycleStart now S =
     (case get (usage_name hostname) S of
        Inl e \<Rightarrow> (Inl e, S)
      | Inr None \<Rightarrow> compute_usage hostname billingCycleStart now S
      | Inr (Some cachedUsage) \<Rightarrow>
          if cachedUsage \<noteq> 0 then (Inr cachedUsage, S)
          else compute_usage hostname billingCycleStart now S)"

subsection \<open>Changing the domain\<close>

definition changeDomain_batch :: "string \<Rightarrow> string \<Rightarrow> string list \<Rightarrow> command list" where
  "changeDomain_batch hostname newHostname keys =
     [RENAME (links_name hostname) (links_name newHostname),
      RENAME (timestamps_name hostname None) (timestamps_name newHostname None),
      RENAME (root_clicks_name hostname) (root_clicks_name newHostname)]
     @ map (\<lambda>k. RENAME (clicks_name hostname k) (clicks_name newHostname k)) keys"

text \<open>The \<open>zrange\<close> is outside the \<open>try\<close>; an error of the pipeline is caught.\<close>

definition changeDomain :: "string \<Rightarrow> string \<Rightarrow> store \<Rightarrow> reply list nullable outcome" where
  "changeDomain hostname newHostname S =
     (case zrange (timestamps_name hostname None) False S of
        Inl e \<Rightarrow> (Inl e, S)
      | Inr keys \<Rightarrow>
          (case exec (changeDomain_batch hostname newHostname keys) S of
             (Inl e, S') \<Rightarrow> (Inr Null, S')
           | (Inr rs, S') \<Rightarrow> (Inr (NonNull rs), S')))"

section \<open>Reading the collections\<close>

text \<open>
  The collections of a hostname, as the store holds them: \<open>links[hostname]\<close> from keys
  to records, \<open>links:timestamps[hostname][:userId]\<close> from keys to scores, and the
  hash and the sorted set under any name. A name that is absent, or holds a value of
  another type, is an empty collection.
\<close>

definition hash_of :: "store \<Rightarrow> string \<Rightarrow> (string \<times> link_meta) list" where
  "hash_of S name = (case S name of Some (Hash h) \<Rightarrow> h | _ \<Rightarrow> [])"

definition zset_of :: "store \<Rightarrow> string \<Rightarrow> (string \<times> int) list" where
  "zset_of S name = (case S name of Some (ZSet z) \<Rightarrow> z | _ \<Rightarrow> [])"

definition links :: "store \<Rightarrow> string \<Rightarrow> string \<Rightarrow> link_meta option" where
  "links S hostname = map_of (hash_of S (links_name hostname))"

definition timestamps :: "store \<Rightarrow> string \<Rightarrow> string option \<Rightarrow> string \<Rightarrow> int option" where
  "timestamps S hostname userId = map_of (zset_of S (timestamps_name hostname userId))"

definition hash_or_absent :: "store \<Rightarrow> string \<Rightarrow> bool" where
  "hash_or_absent S name =
     (case S name of None \<Rightarrow> True | Some (Hash h) \<Rightarrow> True | Some _ \<Rightarrow> False)"

definition zset_or_absent :: "store \<Rightarrow> string \<Rightarrow> bool" where
  "zset_or_absent S name =
     (case S name of None \<Rightarrow> True | Some (ZSet z) \<Rightarrow> True | Some _ \<Rightarrow> False)"



text \<open>
  A hostname is a domain name: it does not contain the colon that separates it from the
  rest of a collection's name. It is fresh in a store that holds none of its
  collections: no hash of links, no primary index, no root click log and no click log
  of any key.
\<close>

definition is_hostname :: "string \<Rightarrow> bool" where
  "is_hostname h = (CHR '':'' \<notin> set h)"

definition fresh :: "store \<Rightarrow> string \<Rightarrow> bool" where
  "fresh S hostname =
     (S (links_name hostname) = None \<and> S (timestamps_name hostname None) = None
      \<and> S (root_clicks_name hostname) = None \<and> (\<forall>k. S (clicks_name hostname k) = None))"

text \<open>The names \<open>changeDomain\<close> renames, in the order of its pipeline.\<close>

definition sources :: "string \<Rightarrow> string list \<Rightarrow> string list" where
  "sources hostname keys =
     [links_name hostname, timestamps_name hostname None, root_clicks_name hostname]
     @ map (clicks_name hostname) keys"

text \<open>
  The number of click events of a key that are scored within the billing window, both
  ends included.
\<close>

definition window_count :: "store \<Rightarrow> string \<Rightarrow> int option \<Rightarrow> int \<Rightarrow> string \<Rightarrow> int" where
  "window_count S hostname billingCycleStart now k =
     int (length (filter
       (\<lambda>(m, s). fst (billing_window billingCycleStart now) \<le> s
                 \<and> s \<le> snd (billing_window billingCycleStart now))
       (zset_of S (clicks_name hostname k))))"

section \<open>A small deployment\<close>

text \<open>
  Concrete parameters and stores on which the theorems below are instantiated. The
  serialisation of a click event joins its fields; \<open>decimal\<close> prints the time.
\<close>

fun decimal :: "nat \<Rightarrow> string" where
  "decimal n =
     (if n < 10 then [''0123456789'' ! n]
      else decimal (n div 10) @ [''0123456789'' ! (n mod 10)])"

definition env0 :: env where
  "env0 = \<lparr>RESERVED_KEYS = [''login'', ''pricing''],
           getTitleFromUrl = (\<lambda>u. ''Title of '' @ u),
           LOCALHOST_GEO_DATA = ''local'',
           VERCEL = None,
           stringify = (\<lambda>e. case e of ClickEvent g a r t \<Rightarrow>
              g @ ''|'' @ a @ ''|'' @ (case r of None \<Rightarrow> ''null'' | Some x \<Rightarrow> x)
                @ ''|'' @ decimal (nat t))\<rparr>"

definition req0 :: request where
  "req0 = \<lparr>req_geo = ''geo'', req_ua = ''ua'', req_referer = None\<rparr>"

definition meta0 :: link_meta where
  "meta0 = \<lparr>url = ''https://example.com'', title = ''Title of https://example.com'',
            timestamp = 1000\<rparr>"

text \<open>
  \<open>ex.test\<close> with the key \<open>abc1234\<close>, three clicks on it and one click on the root.
\<close>

definition store_ex :: store where
  "store_ex =
     [''ex.test:links'' \<mapsto> Hash [(''abc1234'', meta0)],
      ''ex.test:links:timestamps'' \<mapsto> ZSet [(''abc1234'', 1001)],
      ''ex.test:clicks:abc1234'' \<mapsto>
         ZSet [(''local|ua|null|2000'', 2000), (''local|ua|null|3000'', 3000),
               (''local|ua|null|4000'', 4000)],
      ''ex.test:root:clicks'' \<mapsto> ZSet [(''local|ua|null|2500'', 2500)]]"

text \<open>The same store with a cached usage of \<open>0\<close>.\<close>

definition store_zero :: store where
  "store_zero = store_ex(''usage:ex.test'' \<mapsto> Scalar 0 3600)"


definition store_renamed :: store where
  "store_renamed =
     [''ex.test:links'' \<mapsto> Hash [(''new5678'', meta0)],
      ''ex.test:links:timestamps'' \<mapsto> ZSet [(''new5678'', 1000)],
      ''ex.test:clicks:new5678'' \<mapsto>
         ZSet [(''local|ua|null|2000'', 2000), (''local|ua|null|3000'', 3000),
               (''local|ua|null|4000'', 4000)],
      ''ex.test:root:clicks'' \<mapsto> ZSet [(''local|ua|null|2500'', 2500)]]"

definition store_moved :: store where
  "store_moved =
     [''new.test:links'' \<mapsto> Hash [(''abc1234'', meta0)],
      ''new.test:links:timestamps'' \<mapsto> ZSet [(''abc1234'', 1001)],
      ''new.test:clicks:abc1234'' \<mapsto>
         ZSet [(''local|ua|null|2000'', 2000), (''local|ua|null|3000'', 3000),
               (''local|ua|null|4000'', 4000)],
      ''new.test:root:clicks'' \<mapsto> ZSet [(''local|ua|null|2500'', 2500)]]"

text \<open>
  \<open>dub.sh\<close> after \<open>addLink\<close> of \<open>abc1234\<close> under the user \<open>user1\<close>, and that store
  after an edit without user id that renames \<open>abc1234\<close> to \<open>new5678\<close> and changes its
  url and title.
\<close>

definition store_user :: store where
  "store_user =
     [''dub.sh:links'' \<mapsto> Hash [(''abc1234'', meta0)],
      ''dub.sh:links:timestamps:user1'' \<mapsto> ZSet [(''abc1234'', 1000)]]"

definition store_user_edited :: store where
  "store_user_edited =
     [''dub.sh:links'' \<mapsto>
         Hash [(''new5678'', \<lparr>url = ''https://other.example'', title = ''Other'',
                               timestamp = 2000\<rparr>)],
      ''dub.sh:links:timestamps'' \<mapsto> ZSet [(''new5678'', 2000)],
      ''dub.sh:links:timestamps:user1'' \<mapsto> ZSet [(''abc1234'', 1000)]]"

text \<open>
  An index with a member, \<open>gone123\<close>, that has no record in \<open>links[ex.test]\<close>, beside
  one that has; and \<open>ex.test\<close> after \<open>gone123\<close>, created without user id, has been
  renamed to \<open>abc1234\<close> by an edit of the user \<open>user1\<close>: the primary index still holds
  \<open>gone123\<close> and nothing else.
\<close>

definition store_dangling :: store where
  "store_dangling =
     [''ex.test:links'' \<mapsto> Hash [(''abc1234'', meta0)],
      ''ex.test:links:timestamps'' \<mapsto> ZSet [(''gone123'', 500), (''abc1234'', 1001)]]"

definition store_orphan :: store where
  "store_orphan =
     [''ex.test:links'' \<mapsto> Hash [(''abc1234'', meta0)],
      ''ex.test:links:timestamps'' \<mapsto> ZSet [(''gone123'', 1001)],
      ''ex.test:links:timestamps:user1'' \<mapsto> ZSet [(''abc1234'', 1000)]]"

text \<open>
  \<open>ex.test\<close> on 30 November 2022 (UTC): three clicks on \<open>abc1234\<close> shortly after
  09:00 and one click on the root.
\<close>

definition store_nov :: store where
  "store_nov =
     [''ex.test:links'' \<mapsto> Hash [(''abc1234'', meta0)],
      ''ex.test:links:timestamps'' \<mapsto> ZSet [(''abc1234'', 1667300000000)],
      ''ex.test:clicks:abc1234'' \<mapsto>
         ZSet [(''local|ua|null|1669798800000'', 1669798800000),
               (''local|ua|null|1669799000000'', 1669799000000),
               (''local|ua|null|1669799200000'', 1669799200000)],
      ''ex.test:root:clicks'' \<mapsto> ZSet [(''local|ua|null|1669798900000'', 1669798900000)]]"

section \<open>Facts about names and commands\<close>

lemma links_name_neq_timestamps_name [simp]:
  "links_name h \<noteq> timestamps_name h U" "timestamps_name h U \<noteq> links_name h"
  by (auto simp: links_name_def timestamps_name_def)

text \<open>
  The example store is what the program builds from the empty store: one \<open>addLink\<close>
  with an explicit key, three clicks on the key and one on the root.
\<close>

lemma store_ex_built:
  "store_ex =
     snd (recordClick env0 ''ex.test'' req0 None 2500 2500
       (snd (recordClick env0 ''ex.test'' req0 (Some ''abc1234'') 4000 4000
         (snd (recordClick env0 ''ex.test'' req0 (Some ''abc1234'') 3000 3000
           (snd (recordClick env0 ''ex.test'' req0 (Some ''abc1234'') 2000 2000
             (snd (the (addLink env0 ''ex.test'' ''https://example.com'' (Some ''abc1234'')
                          None None [] 1000 1001 Map.empty))))))))))"
  by (simp add: store_ex_def meta0_def addLink_def setKey_def hsetnx_def zadd_def
      recordClick_def truthy_def str_def env0_def req0_def links_name_def timestamps_name_def
      clicks_name_def root_clicks_name_def fun_eq_iff)

section \<open>Creating a link under a key that exists\<close>

text \<open>
  Claim C7. \<open>addLink\<close> with an explicit (non-empty) key that \<open>links[hostname]\<close> already
  holds returns \<open>null\<close> and leaves the whole store as it was: the record is not
  overwritten and no timestamp index gains a member.
\<close>

theorem addLink_existing_key:
  assumes "k \<noteq> []" and "links S hostname k \<noteq> None"
  shows "addLink env hostname u (Some k) t userId draws now_set now_add S = Some (Inr Null, S)"
  using assms
  by (auto simp: addLink_def setKey_def hsetnx_def truthy_def str_def links_def hash_of_def
      split: option.splits rvalue.splits)

theorem addLink_existing_key_witness:
  "''abc1234'' \<noteq> [] \<and> links store_ex ''ex.test'' ''abc1234'' \<noteq> None
   \<and> addLink env0 ''ex.test'' ''https://other.example'' (Some ''abc1234'') (Some ''Other'')
        (Some ''user1'') [] 5000 5001 store_ex = Some (Inr Null, store_ex)"
proof -
  have present: "links store_ex ''ex.test'' ''abc1234'' \<noteq> None"
    by (simp add: links_def hash_of_def links_name_def store_ex_def)
  show ?thesis
    using present addLink_existing_key [of "''abc1234''" store_ex "''ex.test''"]
    by simp
qed

section \<open>Editing a link in place\<close>

text \<open>
  Claim C9. \<open>editLink\<close> with \<open>key = newKey\<close> leaves every timestamp index as it was (no
  member added, removed or rescored) and every name of the store other than
  \<open>hostname:links\<close>; in \<open>links[hostname]\<close> it sets the record of the key to the given
  url, title and timestamp and touches no other record. When \<open>hostname:links\<close> holds a
  value that is not a hash the call throws and nothing changes.
\<close>

theorem editLink_same_key:
  "(\<forall>H U. timestamps (snd (editLink env hostname k k u t ts userId S)) H U = timestamps S H U)
   \<and> (\<forall>n. n \<noteq> links_name hostname \<longrightarrow>
          snd (editLink env hostname k k u t ts userId S) n = S n)
   \<and> (hash_or_absent S (links_name hostname) \<longrightarrow>
        links (snd (editLink env hostname k k u t ts userId S)) hostname
          = (links S hostname)(k \<mapsto> \<lparr>url = u, title = t, timestamp = ts\<rparr>)
        \<and> fst (editLink env hostname k k u t ts userId S)
          = Inr (NonNull (Count (if links S hostname k = None then 1 else 0))))
   \<and> (\<not> hash_or_absent S (links_name hostname) \<longrightarrow>
        editLink env hostname k k u t ts userId S = (Inl WRONGTYPE, S))"
  by (auto simp: editLink_def hset_def timestamps_def links_def hash_of_def zset_of_def
      hash_or_absent_def update_conv'
      split: option.splits rvalue.splits)

theorem editLink_same_key_witness:
  "hash_or_absent store_ex (links_name ''ex.test'')
   \<and> timestamps (snd (editLink env0 ''ex.test'' ''abc1234'' ''abc1234'' ''https://new.example''
        ''New'' 9000 None store_ex)) ''ex.test'' None = [''abc1234'' \<mapsto> 1001]
   \<and> links (snd (editLink env0 ''ex.test'' ''abc1234'' ''abc1234'' ''https://new.example''
        ''New'' 9000 None store_ex)) ''ex.test''
      = [''abc1234'' \<mapsto> \<lparr>url = ''https://new.example'', title = ''New'', timestamp = 9000\<rparr>]
   \<and> fst (editLink env0 ''ex.test'' ''abc1234'' ''abc1234'' ''https://new.example''
        ''New'' 9000 None store_ex) = Inr (NonNull (Count 0))"
proof -
  have typed: "hash_or_absent store_ex (links_name ''ex.test'')"
    by (simp add: hash_or_absent_def links_name_def store_ex_def)
  have before: "links store_ex ''ex.test'' = [''abc1234'' \<mapsto> meta0]"
    by (simp add: links_def hash_of_def links_name_def store_ex_def)
  have index: "timestamps store_ex ''ex.test'' None = [''abc1234'' \<mapsto> 1001]"
    by (simp add: timestamps_def zset_of_def timestamps_name_def truthy_def store_ex_def)
  show ?thesis
    using typed before index
      editLink_same_key [of env0 "''ex.test''" "''abc1234''" "''https://new.example''"
        "''New''" 9000 None store_ex]
    by simp
qed

section \<open>Random keys\<close>

text \<open>
  What one \<open>setKey\<close> does: it throws on a name of the wrong type, answers \<open>0\<close> and
  changes nothing when the key is taken, and otherwise answers \<open>1\<close> and adds the record.
\<close>

lemma setKey_present: "links S h k \<noteq> None \<Longrightarrow> setKey env h k u t now S = (Inr 0, S)"
  by (auto simp: setKey_def hsetnx_def links_def hash_of_def split: option.splits rvalue.splits)

lemma setKey_wrongtype:
  "\<not> hash_or_absent S (links_name h) \<Longrightarrow> setKey env h k u t now S = (Inl WRONGTYPE, S)"
  by (auto simp: setKey_def hsetnx_def hash_or_absent_def split: option.splits rvalue.splits)

lemma setKey_absent:
  assumes "hash_or_absent S (links_name h)" and "links S h k = None"
  shows "fst (setKey env h k u t now S) = Inr 1"
    and "links (snd (setKey env h k u t now S)) h
           = (links S h)(k \<mapsto> \<lparr>url = u, title = (if truthy t then str t else getTitleFromUrl env u),
                                timestamp = now\<rparr>)"
    and "n \<noteq> links_name h \<Longrightarrow> snd (setKey env h k u t now S) n = S n"
    and "hash_or_absent (snd (setKey env h k u t now S)) n = hash_or_absent S n"
    and "timestamps (snd (setKey env h k u t now S)) H U = timestamps S H U"
  using assms
  by (auto simp: setKey_def hsetnx_def links_def hash_of_def zset_of_def hash_or_absent_def
      timestamps_def update_conv'
      split: option.splits rvalue.splits)

lemma setKey_cases:
  "setKey env h k u t now S = (Inl WRONGTYPE, S) \<and> \<not> hash_or_absent S (links_name h)
   \<or> setKey env h k u t now S = (Inr 0, S) \<and> links S h k \<noteq> None
   \<or> fst (setKey env h k u t now S) = Inr 1 \<and> links S h k = None \<and> hash_or_absent S (links_name h)"
  by (auto simp: setKey_def hsetnx_def links_def hash_of_def hash_or_absent_def
      split: option.splits rvalue.splits)

lemma setRandomKey_result:
  "setRandomKey env h u t draws S = Some (r, S') \<Longrightarrow>
     r = Inl WRONGTYPE \<and> S' = S \<and> \<not> hash_or_absent S (links_name h)
     \<or> (\<exists>k now. (k, now) \<in> set draws \<and> links S h k = None \<and> hash_or_absent S (links_name h)
            \<and> r = Inr (1, k) \<and> S' = snd (setKey env h k u t now S))"
proof (induction draws)
  case Nil
  then show ?case by simp
next
  case (Cons d draws)
  obtain k now where d: "d = (k, now)" by (cases d)
  consider
    (wrong) "setKey env h k u t now S = (Inl WRONGTYPE, S)"
      "\<not> hash_or_absent S (links_name h)"
  | (taken) "setKey env h k u t now S = (Inr 0, S)"
  | (fresh) "fst (setKey env h k u t now S) = Inr 1" "links S h k = None"
      "hash_or_absent S (links_name h)"
    using setKey_cases [of env h k u t now S] by auto
  then show ?case
  proof cases
    case wrong
    with Cons.prems show ?thesis by (simp add: d)
  next
    case taken
    with Cons.prems have "setRandomKey env h u t draws S = Some (r, S')"
      by (simp add: d)
    from Cons.IH [OF this] show ?thesis by auto
  next
    case fresh
    with Cons.prems have "r = Inr (1, k)" "S' = snd (setKey env h k u t now S)"
      by (auto simp: d split: prod.splits sum.splits)
    with fresh show ?thesis by (auto simp: d)
  qed
qed

lemma setRandomKey_returns:
  assumes "hash_or_absent S (links_name h)" and "\<exists>d\<in>set draws. links S h (fst d) = None"
  shows "setRandomKey env h u t draws S \<noteq> None"
  using assms
proof (induction draws)
  case Nil
  then show ?case by simp
next
  case (Cons d draws)
  obtain k now where d: "d = (k, now)" by (cases d)
  consider
    (wrong) "setKey env h k u t now S = (Inl WRONGTYPE, S)"
  | (taken) "setKey env h k u t now S = (Inr 0, S)" "links S h k \<noteq> None"
  | (fresh) "fst (setKey env h k u t now S) = Inr 1"
    using setKey_cases [of env h k u t now S] by auto
  then show ?case
  proof cases
    case wrong
    then show ?thesis by (simp add: d)
  next
    case taken
    with Cons.prems have "\<exists>d\<in>set draws. links S h (fst d) = None"
      by (auto simp: d)
    from Cons.IH [OF Cons.prems(1) this] taken show ?thesis by (simp add: d)
  next
    case fresh
    then show ?thesis by (auto simp: d split: prod.splits sum.splits)
  qed
qed

text \<open>
  Claim C3. When no explicit key is given (the argument is absent or empty), a call of
  \<open>addLink\<close> that comes back returns \<open>null\<close> (or throws \<open>WRONGTYPE\<close>) and leaves every
  timestamp index as it was: the branch \<open>response === 1\<close> is never taken, because the
  response is the object \<open>{ response, key }\<close>. When \<open>hostname:links\<close> is a hash or
  absent and some draw of \<open>nanoid()\<close> is not a key of \<open>links[hostname]\<close>, the call does
  return \<open>null\<close>, and the record has been created under a drawn key that was absent,
  with nothing else changed in the store.
\<close>

theorem addLink_random_key:
  assumes "\<not> truthy k"
  shows "(\<forall>r S'. addLink env hostname u k t userId draws now_set now_add S = Some (r, S') \<longrightarrow>
            (r = Inr Null \<or> r = Inl WRONGTYPE)
            \<and> (\<forall>H U. timestamps S' H U = timestamps S H U))
       \<and> (hash_or_absent S (links_name hostname)
            \<and> (\<exists>d\<in>set draws. links S hostname (fst d) = None) \<longrightarrow>
          (\<exists>S' key now. addLink env hostname u k t userId draws now_set now_add S
                = Some (Inr Null, S')
             \<and> (key, now) \<in> set draws \<and> links S hostname key = None
             \<and> links S' hostname
                 = (links S hostname)(key \<mapsto>
                     \<lparr>url = u, title = (if truthy t then str t else getTitleFromUrl env u),
                      timestamp = now\<rparr>)
             \<and> (\<forall>n. n \<noteq> links_name hostname \<longrightarrow> S' n = S n)))"
proof (intro conjI allI impI)
  fix r S' H U
  assume a: "addLink env hostname u k t userId draws now_set now_add S = Some (r, S')"
  have "\<exists>r0. setRandomKey env hostname u t draws S = Some (r0, S')
          \<and> (r = Inr Null \<or> r = Inl WRONGTYPE)"
  proof (cases "setRandomKey env hostname u t draws S")
    case None
    with a assms show ?thesis by (simp add: addLink_def)
  next
    case (Some p)
    obtain r0 S0 where p: "p = (r0, S0)" by (cases p)
    from setRandomKey_result [of env hostname u t draws S r0 S0] Some p
    have "r0 = Inl WRONGTYPE \<or> (\<exists>k. r0 = Inr (1, k))" by auto
    with a assms Some p show ?thesis by (auto simp: addLink_def)
  qed
  then obtain r0 where r0: "setRandomKey env hostname u t draws S = Some (r0, S')"
    and r: "r = Inr Null \<or> r = Inl WRONGTYPE" by blast
  from r show "r = Inr Null \<or> r = Inl WRONGTYPE" .
  from setRandomKey_result [OF r0]
  show "timestamps S' H U = timestamps S H U"
    by (auto simp: setKey_absent)
next
  assume b: "hash_or_absent S (links_name hostname) \<and> (\<exists>d\<in>set draws. links S hostname (fst d) = None)"
  then obtain r0 S' where r0: "setRandomKey env hostname u t draws S = Some (r0, S')"
    using setRandomKey_returns [of S hostname draws env u t] by auto
  from setRandomKey_result [OF r0] b
  obtain key now where kn: "(key, now) \<in> set draws" "links S hostname key = None"
    "r0 = Inr (1, key)" "S' = snd (setKey env hostname key u t now S)"
    by (auto simp: hash_or_absent_def)
  have "addLink env hostname u k t userId draws now_set now_add S = Some (Inr Null, S')"
    using assms r0 kn(3) by (simp add: addLink_def)
  moreover have "links S' hostname
      = (links S hostname)(key \<mapsto>
           \<lparr>url = u, title = (if truthy t then str t else getTitleFromUrl env u),
            timestamp = now\<rparr>)"
    using b kn by (simp add: setKey_absent)
  moreover have "\<forall>n. n \<noteq> links_name hostname \<longrightarrow> S' n = S n"
    using b kn by (simp add: setKey_absent)
  ultimately
  show "\<exists>S' key now. addLink env hostname u k t userId draws now_set now_add S
                = Some (Inr Null, S')
             \<and> (key, now) \<in> set draws \<and> links S hostname key = None
             \<and> links S' hostname
                 = (links S hostname)(key \<mapsto>
                     \<lparr>url = u, title = (if truthy t then str t else getTitleFromUrl env u),
                      timestamp = now\<rparr>)
             \<and> (\<forall>n. n \<noteq> links_name hostname \<longrightarrow> S' n = S n)"
    using kn(1,2) by blast
qed

theorem addLink_random_key_witness:
  "\<not> truthy None \<and> hash_or_absent store_ex (links_name ''ex.test'')
   \<and> links store_ex ''ex.test'' ''Zx3kQ9p'' = None
   \<and> addLink env0 ''ex.test'' ''https://b.example'' None None None
        [(''abc1234'', 5000), (''Zx3kQ9p'', 5001)] 0 6000 store_ex
      = Some (Inr Null,
          store_ex(''ex.test:links'' \<mapsto> Hash [(''abc1234'', meta0),
            (''Zx3kQ9p'', \<lparr>url = ''https://b.example'', title = ''Title of https://b.example'',
                            timestamp = 5001\<rparr>)]))
   \<and> timestamps (store_ex(''ex.test:links'' \<mapsto> Hash [(''abc1234'', meta0),
            (''Zx3kQ9p'', \<lparr>url = ''https://b.example'', title = ''Title of https://b.example'',
                            timestamp = 5001\<rparr>)])) ''ex.test'' None
      = timestamps store_ex ''ex.test'' None"
proof -
  let ?S' = "store_ex(''ex.test:links'' \<mapsto> Hash [(''abc1234'', meta0),
            (''Zx3kQ9p'', \<lparr>url = ''https://b.example'', title = ''Title of https://b.example'',
                            timestamp = 5001\<rparr>)])"
  have none: "\<not> truthy None" by (simp add: truthy_def)
  have typed: "hash_or_absent store_ex (links_name ''ex.test'')"
    by (simp add: hash_or_absent_def links_name_def store_ex_def)
  have free: "links store_ex ''ex.test'' ''Zx3kQ9p'' = None"
    by (simp add: links_def hash_of_def links_name_def store_ex_def)
  have run: "addLink env0 ''ex.test'' ''https://b.example'' None None None
        [(''abc1234'', 5000), (''Zx3kQ9p'', 5001)] 0 6000 store_ex = Some (Inr Null, ?S')"
    by (simp add: addLink_def setKey_def hsetnx_def truthy_def env0_def links_name_def
        store_ex_def fun_eq_iff)
  from addLink_random_key [OF none, of env0 "''ex.test''" "''https://b.example''" None None
      "[(''abc1234'', 5000), (''Zx3kQ9p'', 5001)]" 0 6000 store_ex] run
  have "timestamps ?S' ''ex.test'' None = timestamps store_ex ''ex.test'' None"
    by blast
  with none typed free run show ?thesis by blast
qed

text \<open>
  Claim C1. The random path makes no check against \<open>RESERVED_KEYS\<close>. With a reserved
  key that \<open>nanoid()\<close> can draw, \<open>setRandomKey\<close> on \<open>dub.sh\<close> creates the record
  under it and \<open>getRandomKey\<close> returns it, although \<open>checkIfKeyExists\<close> reports the same
  key as existing.
\<close>

theorem random_key_reserved:
  "is_nanoid ''pricing'' \<and> ''pricing'' \<in> set (RESERVED_KEYS env0)
   \<and> checkIfKeyExists env0 ''dub.sh'' ''pricing'' Map.empty = Inr 1
   \<and> setRandomKey env0 ''dub.sh'' ''https://example.com'' None [(''pricing'', 1000)] Map.empty
      = Some (Inr (1, ''pricing''), [''dub.sh:links'' \<mapsto> Hash [(''pricing'', meta0)]])
   \<and> links [''dub.sh:links'' \<mapsto> Hash [(''pricing'', meta0)]] ''dub.sh'' ''pricing'' = Some meta0
   \<and> getRandomKey ''dub.sh'' [''pricing''] Map.empty = Some (Inr ''pricing'')"
  by (simp add: is_nanoid_def alphabet_def env0_def checkIfKeyExists_def setKey_def hsetnx_def
      truthy_def links_name_def meta0_def hexists_def links_def hash_of_def)

text \<open>
  The part of claim C1 that holds: a key that \<open>setRandomKey\<close> returns was absent from
  \<open>links[hostname]\<close> when it was set, and a key that \<open>getRandomKey\<close> returns is absent.
\<close>

lemma setRandomKey_fresh:
  assumes "setRandomKey env h u t draws S = Some (Inr (r, k), S')"
  shows "links S h k = None \<and> links S' h k \<noteq> None \<and> r = 1 \<and> k \<in> fst ` set draws"
proof -
  from setRandomKey_result [OF assms]
  obtain now where "(k, now) \<in> set draws" "links S h k = None"
    "hash_or_absent S (links_name h)" "r = 1" "S' = snd (setKey env h k u t now S)"
    by auto
  then show ?thesis by (force simp: setKey_absent)
qed

lemma getRandomKey_fresh:
  "getRandomKey h draws S = Some (Inr k) \<Longrightarrow> links S h k = None \<and> k \<in> set draws"
  by (induction draws)
     (auto simp: hexists_def links_def hash_of_def split: option.splits rvalue.splits if_splits)

section \<open>The usage cache\<close>

lemma billing_window_5000: "billing_window None 5000 = (0, 2592000000)"
  by code_simp

text \<open>
  Claim C10. The cached usage is tested for truthiness, so a cached \<open>0\<close> is not
  returned: here the entry \<open>usage:ex.test\<close> holds \<open>0\<close>, and \<open>getUsage\<close> counts the
  clicks again, returns \<open>3\<close> and overwrites the entry.
\<close>

theorem getUsage_cached_zero:
  "get (usage_name ''ex.test'') store_zero = Inr (Some 0)
   \<and> getUsage ''ex.test'' None 5000 store_zero
      = (Inr 3, store_ex(''usage:ex.test'' \<mapsto> Scalar 3 3600))"
  by (simp add: store_zero_def store_ex_def getUsage_def compute_usage_def get_def usage_name_def
      zrange_def timestamps_name_def truthy_def exec_def clicks_name_def zcount_def
      billing_window_5000 setex_def fun_eq_iff)

text \<open>A cached usage other than \<open>0\<close> is returned as it is, and the store is not written.\<close>

lemma getUsage_cache_hit:
  "get (usage_name hostname) S = Inr (Some v) \<Longrightarrow> v \<noteq> 0 \<Longrightarrow>
     getUsage hostname billingCycleStart now S = (Inr v, S)"
  by (simp add: getUsage_def)

section \<open>Creating a link under a new key\<close>



lemma map_outcome_Inl:
  "map_prod (map_sum id f) id p = (Inl e, S') \<longleftrightarrow> p = (Inl e, S')"
  by (cases p; cases "fst p") auto








section \<open>Renaming a key\<close>

lemma hash_of_upd_other [simp]: "m \<noteq> n \<Longrightarrow> hash_of (S(n := v)) m = hash_of S m"
  by (simp add: hash_of_def)

lemma zset_of_upd_other [simp]: "m \<noteq> n \<Longrightarrow> zset_of (S(n := v)) m = zset_of S m"
  by (simp add: zset_of_def)

lemma delete_all_empty:
  "AList.delete f al = [] \<Longrightarrow> (map_of al)(f := None) = Map.empty"
  using delete_conv' [of f al] by simp

lemma hdel_effect:
  assumes "hash_or_absent S n"
  shows "\<exists>c. fst (hdel n f S) = Inr c"
    and "map_of (hash_of (snd (hdel n f S)) n) = (map_of (hash_of S n))(f := None)"
    and "hash_or_absent (snd (hdel n f S)) n"
    and "m \<noteq> n \<Longrightarrow> snd (hdel n f S) m = S m"
  using assms
  by (auto simp: hdel_def hash_or_absent_def hash_of_def delete_conv' delete_all_empty map_of_eq_None_iff
      split: option.splits rvalue.splits)

lemma hset_effect:
  assumes "hash_or_absent S n"
  shows "\<exists>c. fst (hset n f v S) = Inr c"
    and "map_of (hash_of (snd (hset n f v S)) n) = (map_of (hash_of S n))(f \<mapsto> v)"
    and "m \<noteq> n \<Longrightarrow> snd (hset n f v S) m = S m"
  using assms
  by (auto simp: hset_def hash_or_absent_def hash_of_def update_conv'
      split: option.splits rvalue.splits)

lemma zrem_effect:
  assumes "zset_or_absent S n"
  shows "\<exists>c. fst (zrem n f S) = Inr c"
    and "map_of (zset_of (snd (zrem n f S)) n) = (map_of (zset_of S n))(f := None)"
    and "zset_or_absent (snd (zrem n f S)) n"
    and "m \<noteq> n \<Longrightarrow> snd (zrem n f S) m = S m"
  using assms
  by (auto simp: zrem_def zset_or_absent_def zset_of_def delete_conv' delete_all_empty map_of_eq_None_iff
      split: option.splits rvalue.splits)

lemma zadd_effect:
  assumes "zset_or_absent S n"
  shows "\<exists>c. fst (zadd n sc f S) = Inr c"
    and "map_of (zset_of (snd (zadd n sc f S)) n) = (map_of (zset_of S n))(f \<mapsto> sc)"
    and "m \<noteq> n \<Longrightarrow> snd (zadd n sc f S) m = S m"
  using assms
  by (auto simp: zadd_def zset_or_absent_def zset_of_def update_conv'
      split: option.splits rvalue.splits)

lemma names_distinct [simp]:
  "links_name h \<noteq> clicks_name h x" "clicks_name h x \<noteq> links_name h"
  "timestamps_name h U \<noteq> clicks_name h x" "clicks_name h x \<noteq> timestamps_name h U"
  "(clicks_name h x = clicks_name h y) = (x = y)"
  by (auto simp: links_name_def clicks_name_def timestamps_name_def)


lemma pipeline_Cons:
  "pipeline (c # cs) S =
     (fst (run c S) # fst (pipeline cs (snd (run c S))), snd (pipeline cs (snd (run c S))))"
  by (simp split: prod.splits)

lemma run_fst_snd:
  "fst (run (HDEL n f) S) = map_sum id Num (fst (hdel n f S))"
  "snd (run (HDEL n f) S) = snd (hdel n f S)"
  "fst (run (HSET n f v) S) = map_sum id Num (fst (hset n f v S))"
  "snd (run (HSET n f v) S) = snd (hset n f v S)"
  "fst (run (ZREM n f) S) = map_sum id Num (fst (zrem n f S))"
  "snd (run (ZREM n f) S) = snd (zrem n f S)"
  "fst (run (ZADD n sc f) S) = map_sum id Num (fst (zadd n sc f S))"
  "snd (run (ZADD n sc f) S) = snd (zadd n sc f S)"
  "fst (run (RENAME a b) S) = map_sum id (\<lambda>_. OK) (fst (rename a b S))"
  "snd (run (RENAME a b) S) = snd (rename a b S)"
  by simp_all

lemma checkIfKeyExists_absent:
  assumes "\<not> (hostname = ''dub.sh'' \<and> k \<in> set (RESERVED_KEYS env))"
    and "links S hostname k = None" and "hash_or_absent S (links_name hostname)"
  shows "checkIfKeyExists env hostname k S = Inr 0"
  using assms
  by (auto simp: checkIfKeyExists_def hexists_def links_def hash_of_def hash_or_absent_def
      split: option.splits rvalue.splits)

lemma zcard_length:
  "zset_or_absent S n \<Longrightarrow> zcard n S = Inr (int (length (zset_of S n)))"
  by (auto simp: zcard_def zset_or_absent_def zset_of_def split: option.splits rvalue.splits)

text \<open>
  The edit that changes the key, in a store where the three names it touches hold
  values of their types: one pipeline, every command answered without error.
\<close>

lemma editLink_rename_typed:
  assumes ne: "k \<noteq> newKey"
    and nres: "\<not> (hostname = ''dub.sh'' \<and> newKey \<in> set (RESERVED_KEYS env))"
    and fresh: "links S hostname newKey = None"
    and th: "hash_or_absent S (links_name hostname)"
    and tz: "zset_or_absent S (timestamps_name hostname userId)"
    and tc: "zset_or_absent S (clicks_name hostname k)"
  shows "\<exists>rs S'.
      editLink env hostname k newKey u t ts userId S = (Inr (NonNull (Replies rs)), S')
    \<and> exec (editLink_batch hostname k newKey u t ts userId
              (int (length (zset_of S (clicks_name hostname k))))) S = (Inr rs, S')
    \<and> length rs = (if zset_of S (clicks_name hostname k) = [] then 4 else 5)
    \<and> links S' hostname
        = ((links S hostname)(k := None))(newKey \<mapsto> \<lparr>url = u, title = t, timestamp = ts\<rparr>)
    \<and> timestamps S' hostname userId = ((timestamps S hostname userId)(k := None))(newKey \<mapsto> ts)
    \<and> zset_of S' (clicks_name hostname k) = []
    \<and> S' (clicks_name hostname newKey)
        = (if zset_of S (clicks_name hostname k) = [] then S (clicks_name hostname newKey)
           else S (clicks_name hostname k))
    \<and> (\<forall>n. n \<notin> {links_name hostname, timestamps_name hostname userId,
                  clicks_name hostname k, clicks_name hostname newKey} \<longrightarrow> S' n = S n)"
proof -
  let ?L = "links_name hostname" and ?T = "timestamps_name hostname userId"
  let ?C = "clicks_name hostname k" and ?C' = "clicks_name hostname newKey"
  let ?v = "\<lparr>url = u, title = t, timestamp = ts\<rparr>"
  let ?n = "int (length (zset_of S ?C))"
  define S1 where "S1 = snd (hdel ?L k S)"
  define S2 where "S2 = snd (hset ?L newKey ?v S1)"
  define S3 where "S3 = snd (zrem ?T k S2)"
  define S4 where "S4 = snd (zadd ?T ts newKey S3)"
  define S5 where "S5 = (if zset_of S ?C = [] then S4 else snd (rename ?C ?C' S4))"
  obtain c1 where c1: "fst (hdel ?L k S) = Inr c1"
    using hdel_effect(1) [OF th] by blast
  have h1: "hash_or_absent S1 ?L" and l1: "map_of (hash_of S1 ?L) = (links S hostname)(k := None)"
    and o1: "\<And>m. m \<noteq> ?L \<Longrightarrow> S1 m = S m"
    unfolding S1_def links_def using hdel_effect [OF th] by auto
  obtain c2 where c2: "fst (hset ?L newKey ?v S1) = Inr c2"
    using hset_effect(1) [OF h1] by blast
  have l2: "map_of (hash_of S2 ?L) = ((links S hostname)(k := None))(newKey \<mapsto> ?v)"
    and o2: "\<And>m. m \<noteq> ?L \<Longrightarrow> S2 m = S m"
    unfolding S2_def using hset_effect [OF h1] l1 o1 by auto
  have z2: "zset_or_absent S2 ?T"
    using tz o2 [of ?T] by (simp add: zset_or_absent_def)
  obtain c3 where c3: "fst (zrem ?T k S2) = Inr c3"
    using zrem_effect(1) [OF z2] by blast
  have z3: "zset_or_absent S3 ?T"
    and t3: "map_of (zset_of S3 ?T) = (timestamps S hostname userId)(k := None)"
    and o3: "\<And>m. m \<noteq> ?T \<Longrightarrow> S3 m = S2 m"
    unfolding S3_def timestamps_def using zrem_effect [OF z2] o2 [of ?T]
    by (auto simp: zset_of_def)
  obtain c4 where c4: "fst (zadd ?T ts newKey S3) = Inr c4"
    using zadd_effect(1) [OF z3] by blast
  have t4: "map_of (zset_of S4 ?T) = ((timestamps S hostname userId)(k := None))(newKey \<mapsto> ts)"
    and o4: "\<And>m. m \<noteq> ?T \<Longrightarrow> S4 m = S3 m"
    unfolding S4_def using zadd_effect [OF z3] t3 by auto
  have l4: "hash_of S4 ?L = hash_of S2 ?L"
    using o4 [of ?L] o3 [of ?L] by (simp add: hash_of_def)
  have c4k: "S4 ?C = S ?C" and c4n: "S4 ?C' = S ?C'"
    using o4 o3 o2 by simp_all
  have far4: "S4 n = S n" if "n \<noteq> ?L" "n \<noteq> ?T" for n
    using that o4 o3 o2 by simp
  have present: "S4 ?C \<noteq> None" if "zset_of S ?C \<noteq> []"
    using that c4k by (auto simp: zset_of_def split: option.splits)
  have r5: "rename ?C ?C' S4 = (Inr (), (S4(?C := None))(?C' := S ?C))" if "zset_of S ?C \<noteq> []"
    using present [OF that] c4k by (auto simp: rename_def split: option.splits)
  have ex: "exec (editLink_batch hostname k newKey u t ts userId ?n) S
      = (Inr ([Num c1, Num c2, Num c3, Num c4] @ (if zset_of S ?C = [] then [] else [OK])), S5)"
    using c1 c2 c3 c4 r5
    by (simp add: exec_def editLink_batch_def pipeline_Cons run_fst_snd
        S1_def [symmetric] S2_def [symmetric] S3_def [symmetric] S4_def [symmetric] S5_def
        del: pipeline.simps(2) run.simps)
  have ed: "editLink env hostname k newKey u t ts userId S
      = (Inr (NonNull (Replies ([Num c1, Num c2, Num c3, Num c4]
            @ (if zset_of S ?C = [] then [] else [OK])))), S5)"
    using ne nres checkIfKeyExists_absent [OF nres fresh th] zcard_length [OF tc] ex
    by (simp add: editLink_def)
  have l5: "links S5 hostname = ((links S hostname)(k := None))(newKey \<mapsto> ?v)"
    using l2 l4 r5 by (simp add: S5_def links_def)
  have t5: "timestamps S5 hostname userId
      = ((timestamps S hostname userId)(k := None))(newKey \<mapsto> ts)"
    using t4 r5 by (simp add: S5_def timestamps_def)
  have k5: "zset_of S5 ?C = []"
    using c4k r5 ne by (auto simp: S5_def zset_of_def)
  have n5: "S5 ?C' = (if zset_of S ?C = [] then S ?C' else S ?C)"
    using c4n r5 by (simp add: S5_def)
  have far5: "\<forall>n. n \<notin> {?L, ?T, ?C, ?C'} \<longrightarrow> S5 n = S n"
    using far4 r5 by (simp add: S5_def)
  from ex ed l5 t5 k5 n5 far5 show ?thesis
    by (intro exI [of _ S5] exI [of _ "[Num c1, Num c2, Num c3, Num c4]
            @ (if zset_of S ?C = [] then [] else [OK])"]) simp
qed

text \<open>
  When one of the three names holds a value of another type, the edit throws: at
  \<open>hexists\<close>, at \<open>zcard\<close>, or from the pipeline, whose \<open>ZREM\<close> fails.
\<close>

lemma zrem_wrongtype:
  "\<not> zset_or_absent S n \<Longrightarrow> fst (zrem n f S) = Inl WRONGTYPE"
  by (auto simp: zrem_def zset_or_absent_def split: option.splits rvalue.splits)

lemma editLink_rename_wrongtype:
  assumes ne: "k \<noteq> newKey"
    and nres: "\<not> (hostname = ''dub.sh'' \<and> newKey \<in> set (RESERVED_KEYS env))"
    and fresh: "links S hostname newKey = None"
    and bad: "\<not> (hash_or_absent S (links_name hostname)
               \<and> zset_or_absent S (timestamps_name hostname userId)
               \<and> zset_or_absent S (clicks_name hostname k))"
  shows "fst (editLink env hostname k newKey u t ts userId S) = Inl WRONGTYPE"
proof -
  let ?L = "links_name hostname" and ?T = "timestamps_name hostname userId"
  let ?C = "clicks_name hostname k"
  let ?v = "\<lparr>url = u, title = t, timestamp = ts\<rparr>"
  consider (l) "\<not> hash_or_absent S ?L"
    | (c) "hash_or_absent S ?L" "\<not> zset_or_absent S ?C"
    | (t) "hash_or_absent S ?L" "zset_or_absent S ?C" "\<not> zset_or_absent S ?T"
    using bad by blast
  then show ?thesis
  proof cases
    case l
    then have "checkIfKeyExists env hostname newKey S = Inl WRONGTYPE"
      using nres
      by (auto simp: checkIfKeyExists_def hexists_def hash_or_absent_def
          split: option.splits rvalue.splits)
    then show ?thesis using ne nres by (simp add: editLink_def)
  next
    case c
    then have "zcard ?C S = Inl WRONGTYPE"
      by (auto simp: zcard_def zset_or_absent_def split: option.splits rvalue.splits)
    then show ?thesis
      using ne nres checkIfKeyExists_absent [OF nres fresh c(1)] by (simp add: editLink_def)
  next
    case t
    define S1 where "S1 = snd (hdel ?L k S)"
    define S2 where "S2 = snd (hset ?L newKey ?v S1)"
    obtain c1 where c1: "fst (hdel ?L k S) = Inr c1"
      using hdel_effect(1) [OF t(1)] by blast
    have h1: "hash_or_absent S1 ?L" and o1: "\<And>m. m \<noteq> ?L \<Longrightarrow> S1 m = S m"
      unfolding S1_def using hdel_effect [OF t(1)] by auto
    obtain c2 where c2: "fst (hset ?L newKey ?v S1) = Inr c2"
      using hset_effect(1) [OF h1] by blast
    have o2: "S2 ?T = S ?T"
      unfolding S2_def using hset_effect(3) [OF h1, of ?T] o1 [of ?T] by simp
    have "\<not> zset_or_absent S2 ?T"
      using t(3) o2 by (simp add: zset_or_absent_def)
    then have z: "fst (zrem ?T k S2) = Inl WRONGTYPE" by (rule zrem_wrongtype)
    have "fst (exec (editLink_batch hostname k newKey u t ts userId n) S) = Inl WRONGTYPE" for n
      using c1 c2 z
      by (simp add: exec_def editLink_batch_def pipeline_Cons run_fst_snd split_beta
          S1_def [symmetric] S2_def [symmetric] del: pipeline.simps(2) run.simps)
    then show ?thesis
      using ne nres checkIfKeyExists_absent [OF nres fresh t(1)] zcard_length [OF t(2)]
      by (simp add: editLink_def)
  qed
qed

text \<open>
  Claim C4, as the code has it. Let \<open>newKey\<close> differ from the key, be not reserved on
  \<open>dub.sh\<close> and have no record in \<open>links[hostname]\<close>. When the three names the edit
  touches hold values of their types, \<open>editLink\<close> runs one pipeline, \<open>editLink_batch\<close>:
  \<open>HDEL\<close>, \<open>HSET\<close>, \<open>ZREM\<close>, \<open>ZADD\<close> and, exactly when the click log of the old key
  has a click, \<open>RENAME\<close> (four or five commands, all answered without error). Afterwards
  the old key is gone from \<open>links[hostname]\<close>, from the one index
  \<open>links:timestamps[hostname][:userId]\<close> that the user id of the edit names and from the
  click logs; the new key has the record of the url, title and timestamp given to the
  edit, and that timestamp as its score; the click log of the new key is the old key's
  log when that had a click, and is untouched otherwise; no other name of the store, so
  no other index, has changed. When one of the three names holds a value of another
  type, the call throws \<open>WRONGTYPE\<close>.
\<close>

theorem editLink_rename:
  assumes "k \<noteq> newKey"
    and "\<not> (hostname = ''dub.sh'' \<and> newKey \<in> set (RESERVED_KEYS env))"
    and "links S hostname newKey = None"
  shows "(hash_or_absent S (links_name hostname)
          \<and> zset_or_absent S (timestamps_name hostname userId)
          \<and> zset_or_absent S (clicks_name hostname k) \<longrightarrow>
         (\<exists>rs S'.
            editLink env hostname k newKey u t ts userId S = (Inr (NonNull (Replies rs)), S')
          \<and> exec (editLink_batch hostname k newKey u t ts userId
                    (int (length (zset_of S (clicks_name hostname k))))) S = (Inr rs, S')
          \<and> length rs = (if zset_of S (clicks_name hostname k) = [] then 4 else 5)
          \<and> links S' hostname
              = ((links S hostname)(k := None))(newKey \<mapsto>
                   \<lparr>url = u, title = t, timestamp = ts\<rparr>)
          \<and> timestamps S' hostname userId
              = ((timestamps S hostname userId)(k := None))(newKey \<mapsto> ts)
          \<and> zset_of S' (clicks_name hostname k) = []
          \<and> S' (clicks_name hostname newKey)
              = (if zset_of S (clicks_name hostname k) = [] then S (clicks_name hostname newKey)
                 else S (clicks_name hostname k))
          \<and> (\<forall>n. n \<notin> {links_name hostname, timestamps_name hostname userId,
                        clicks_name hostname k, clicks_name hostname newKey} \<longrightarrow>
                 S' n = S n)))
       \<and> (\<not> (hash_or_absent S (links_name hostname)
               \<and> zset_or_absent S (timestamps_name hostname userId)
               \<and> zset_or_absent S (clicks_name hostname k)) \<longrightarrow>
          fst (editLink env hostname k newKey u t ts userId S) = Inl WRONGTYPE)"
  using editLink_rename_typed
      [OF assms, where userId = userId and u = u and t = t and ts = ts]
    editLink_rename_wrongtype
      [OF assms, where userId = userId and u = u and t = t and ts = ts]
  by blast

theorem editLink_rename_witness:
  "''abc1234'' \<noteq> ''new5678''
   \<and> \<not> (''ex.test'' = ''dub.sh'' \<and> ''new5678'' \<in> set (RESERVED_KEYS env0))
   \<and> links store_ex ''ex.test'' ''new5678'' = None
   \<and> hash_or_absent store_ex (links_name ''ex.test'')
   \<and> zset_or_absent store_ex (timestamps_name ''ex.test'' None)
   \<and> zset_or_absent store_ex (clicks_name ''ex.test'' ''abc1234'')
   \<and> editLink env0 ''ex.test'' ''abc1234'' ''new5678'' ''https://example.com''
        ''Title of https://example.com'' 1000 None store_ex
      = (Inr (NonNull (Replies [Num 1, Num 1, Num 1, Num 1, OK])), store_renamed)
   \<and> links store_renamed ''ex.test'' = [''new5678'' \<mapsto> meta0]
   \<and> timestamps store_renamed ''ex.test'' None = [''new5678'' \<mapsto> 1000]
   \<and> zset_of store_renamed (clicks_name ''ex.test'' ''abc1234'') = []
   \<and> store_renamed (clicks_name ''ex.test'' ''new5678'')
      = store_ex (clicks_name ''ex.test'' ''abc1234'')"
proof -
  have a: "''abc1234'' \<noteq> ''new5678''" by simp
  have b: "\<not> (''ex.test'' = ''dub.sh'' \<and> ''new5678'' \<in> set (RESERVED_KEYS env0))" by simp
  have c: "links store_ex ''ex.test'' ''new5678'' = None"
    by (simp add: links_def hash_of_def links_name_def store_ex_def)
  have d: "hash_or_absent store_ex (links_name ''ex.test'')"
    by (simp add: hash_or_absent_def links_name_def store_ex_def)
  have e: "zset_or_absent store_ex (timestamps_name ''ex.test'' None)"
    by (simp add: zset_or_absent_def timestamps_name_def truthy_def store_ex_def)
  have f: "zset_or_absent store_ex (clicks_name ''ex.test'' ''abc1234'')"
    by (simp add: zset_or_absent_def clicks_name_def store_ex_def)
  have run: "editLink env0 ''ex.test'' ''abc1234'' ''new5678'' ''https://example.com''
        ''Title of https://example.com'' 1000 None store_ex
      = (Inr (NonNull (Replies [Num 1, Num 1, Num 1, Num 1, OK])), store_renamed)"
    by (simp add: editLink_def checkIfKeyExists_def hexists_def zcard_def exec_def
        editLink_batch_def hdel_def hset_def zrem_def zadd_def rename_def env0_def
        links_name_def timestamps_name_def clicks_name_def truthy_def store_ex_def
        store_renamed_def meta0_def fun_eq_iff)
  have before: "links store_ex ''ex.test'' = [''abc1234'' \<mapsto> meta0]"
    "timestamps store_ex ''ex.test'' None = [''abc1234'' \<mapsto> 1001]"
    "zset_of store_ex (clicks_name ''ex.test'' ''abc1234'') \<noteq> []"
    by (simp_all add: links_def hash_of_def timestamps_def zset_of_def links_name_def
        timestamps_name_def clicks_name_def truthy_def store_ex_def)
  from editLink_rename [OF a b c, where userId = None
      and u = "''https://example.com''" and t = "''Title of https://example.com''"
      and ts = 1000] d e f run before
  have "links store_renamed ''ex.test'' = [''new5678'' \<mapsto> meta0]
      \<and> timestamps store_renamed ''ex.test'' None = [''new5678'' \<mapsto> 1000]
      \<and> zset_of store_renamed (clicks_name ''ex.test'' ''abc1234'') = []
      \<and> store_renamed (clicks_name ''ex.test'' ''new5678'')
          = store_ex (clicks_name ''ex.test'' ''abc1234'')"
    by (auto simp: meta0_def)
  with a b c d e f run show ?thesis by blast
qed

text \<open>
  Against claim C4 as stated: on \<open>dub.sh\<close>, where \<open>abc1234\<close> was created under \<open>user1\<close>,
  an edit without user id renames it to \<open>new5678\<close> and gives a new url and title. The
  new key is neither reserved nor existing, the pipeline has four commands, and
  afterwards the old key is still a member of the index of \<open>user1\<close>, and the record of
  the new key is not the old record.
\<close>

theorem editLink_other_index_counterexample:
  "''abc1234'' \<noteq> ''new5678''
   \<and> ''new5678'' \<notin> set (RESERVED_KEYS env0)
   \<and> links store_user ''dub.sh'' ''new5678'' = None
   \<and> links store_user ''dub.sh'' ''abc1234'' = Some meta0
   \<and> timestamps store_user ''dub.sh'' (Some ''user1'') ''abc1234'' = Some 1000
   \<and> editLink env0 ''dub.sh'' ''abc1234'' ''new5678'' ''https://other.example'' ''Other'' 2000
        None store_user
      = (Inr (NonNull (Replies [Num 1, Num 1, Num 0, Num 1])), store_user_edited)
   \<and> timestamps store_user_edited ''dub.sh'' (Some ''user1'') ''abc1234'' = Some 1000
   \<and> links store_user_edited ''dub.sh'' ''new5678''
      = Some \<lparr>url = ''https://other.example'', title = ''Other'', timestamp = 2000\<rparr>
   \<and> links store_user_edited ''dub.sh'' ''new5678'' \<noteq> Some meta0"
proof -
  have before: "links store_user ''dub.sh'' ''new5678'' = None"
    "links store_user ''dub.sh'' ''abc1234'' = Some meta0"
    "timestamps store_user ''dub.sh'' (Some ''user1'') ''abc1234'' = Some 1000"
    by (simp_all add: links_def hash_of_def timestamps_def zset_of_def links_name_def
        timestamps_name_def truthy_def str_def store_user_def)
  have run: "editLink env0 ''dub.sh'' ''abc1234'' ''new5678'' ''https://other.example'' ''Other''
        2000 None store_user
      = (Inr (NonNull (Replies [Num 1, Num 1, Num 0, Num 1])), store_user_edited)"
    by (simp add: editLink_def checkIfKeyExists_def hexists_def zcard_def exec_def
        editLink_batch_def hdel_def hset_def zrem_def zadd_def env0_def
        links_name_def timestamps_name_def clicks_name_def truthy_def store_user_def
        store_user_edited_def meta0_def fun_eq_iff)
  have after: "timestamps store_user_edited ''dub.sh'' (Some ''user1'') ''abc1234'' = Some 1000"
    "links store_user_edited ''dub.sh'' ''new5678''
      = Some \<lparr>url = ''https://other.example'', title = ''Other'', timestamp = 2000\<rparr>"
    by (simp_all add: links_def hash_of_def timestamps_def zset_of_def links_name_def
        timestamps_name_def truthy_def str_def store_user_edited_def)
  have differ: "links store_user_edited ''dub.sh'' ''new5678'' \<noteq> Some meta0"
    by (simp add: after meta0_def)
  have "''abc1234'' \<noteq> ''new5678''" "''new5678'' \<notin> set (RESERVED_KEYS env0)"
    by (simp_all add: env0_def)
  with before run after differ show ?thesis by blast
qed

section \<open>Changing the domain and back\<close>

text \<open>
  A pipeline of renames \<open>s \<rightarrow> f s\<close>, where no destination is also a source and \<open>g\<close>
  inverts \<open>f\<close> on the sources, moves every source that exists to its destination and
  changes nothing else; renaming back restores a store in which the destinations were
  absent.
\<close>

lemma rename_snd:
  "snd (rename a b S) = (if S a = None then S else (S(a := None))(b := S a))"
  by (auto simp: rename_def split: option.splits)

lemma renames_effect:
  assumes "\<forall>s\<in>set xs. g (f s) = s" and "\<forall>s\<in>set xs. f s \<notin> set xs"
  shows "snd (pipeline (map (\<lambda>s. RENAME s (f s)) xs) S)
       = (\<lambda>n. if n \<in> set xs then None
              else if g n \<in> set xs \<and> f (g n) = n \<and> S (g n) \<noteq> None then S (g n)
              else S n)"
  using assms
proof (induction xs arbitrary: S)
  case Nil
  then show ?case by simp
next
  case (Cons x xs)
  let ?S1 = "snd (rename x (f x) S)"
  have IH: "snd (pipeline (map (\<lambda>s. RENAME s (f s)) xs) ?S1)
       = (\<lambda>n. if n \<in> set xs then None
              else if g n \<in> set xs \<and> f (g n) = n \<and> ?S1 (g n) \<noteq> None then ?S1 (g n)
              else ?S1 n)"
    using Cons by auto
  have gx: "g (f x) = x" and fx: "f x \<noteq> x" "f x \<notin> set xs"
    and gs: "\<And>s. s \<in> set xs \<Longrightarrow> g (f s) = s" and fs: "\<And>s. s \<in> set xs \<Longrightarrow> f s \<noteq> x"
      "\<And>s. s \<in> set xs \<Longrightarrow> f s \<notin> set xs"
    using Cons.prems by auto
  have step: "snd (pipeline (map (\<lambda>s. RENAME s (f s)) (x # xs)) S) n
       = (if n \<in> set xs then None
          else if g n \<in> set xs \<and> f (g n) = n \<and> ?S1 (g n) \<noteq> None then ?S1 (g n)
          else ?S1 n)" for n
    by (simp add: pipeline_Cons run_fst_snd IH del: pipeline.simps(2) run.simps)
  show ?case
  proof (rule ext)
    fix n
    show "snd (pipeline (map (\<lambda>s. RENAME s (f s)) (x # xs)) S) n
       = (if n \<in> set (x # xs) then None
              else if g n \<in> set (x # xs) \<and> f (g n) = n \<and> S (g n) \<noteq> None then S (g n)
              else S n)"
    proof (cases "S x = None")
      case True
      then have same: "?S1 = S" by (simp add: rename_snd)
      show ?thesis
      proof (cases "n = x")
        case nx: True
        have "\<not> (g x \<in> set xs \<and> f (g x) = x)" using fs(1) by blast
        with nx True show ?thesis unfolding step same by auto
      next
        case False
        with True show ?thesis unfolding step same by auto
      qed
    next
      case False
      then have S1: "?S1 = (S(x := None))(f x := S x)" by (auto simp: rename_snd)
      consider (x) "n = x" | (xs) "n \<in> set xs" | (fx) "n = f x" "n \<noteq> x" "n \<notin> set xs"
        | (other) "n \<noteq> x" "n \<notin> set xs" "n \<noteq> f x"
        by blast
      then show ?thesis
      proof cases
        case x
        have "\<not> (g x \<in> set xs \<and> f (g x) = x)" using fs(1) by blast
        with x fx show ?thesis unfolding step S1 by auto
      next
        case xs
        then show ?thesis unfolding step by simp
      next
        case fx
        with False gx show ?thesis unfolding step S1 by auto
      next
        case other
        have a: "g n \<noteq> f x" if "g n \<in> set xs" using that fx(2) by auto
        have b: "g n \<noteq> x" if "f (g n) = n" using that other(3) by auto
        from other a b show ?thesis unfolding step S1 by auto
      qed
    qed
  qed
qed


lemma renames_roundtrip:
  assumes gf: "\<forall>s\<in>set xs. g (f s) = s" and disj: "\<forall>s\<in>set xs. f s \<notin> set xs"
    and free: "\<forall>s\<in>set xs. S (f s) = None"
  shows "snd (pipeline (map (\<lambda>s. RENAME (f s) s) xs)
           (snd (pipeline (map (\<lambda>s. RENAME s (f s)) xs) S))) = S"
proof -
  let ?S1 = "snd (pipeline (map (\<lambda>s. RENAME s (f s)) xs) S)"
  have rev_batch: "map (\<lambda>s. RENAME (f s) s) xs = map (\<lambda>d. RENAME d (g d)) (map f xs)"
    using gf by (induction xs) auto
  have S1: "?S1 = (\<lambda>n. if n \<in> set xs then None
              else if g n \<in> set xs \<and> f (g n) = n \<and> S (g n) \<noteq> None then S (g n)
              else S n)"
    by (rule renames_effect [OF gf disj])
  have a1: "\<forall>d\<in>set (map f xs). f (g d) = d" using gf by auto
  have a2: "\<forall>d\<in>set (map f xs). g d \<notin> set (map f xs)" using gf disj by auto
  have S2: "snd (pipeline (map (\<lambda>d. RENAME d (g d)) (map f xs)) ?S1)
      = (\<lambda>n. if n \<in> set (map f xs) then None
              else if f n \<in> set (map f xs) \<and> g (f n) = n \<and> ?S1 (f n) \<noteq> None then ?S1 (f n)
              else ?S1 n)"
    by (rule renames_effect [OF a1 a2])
  show ?thesis
    unfolding rev_batch S2
  proof (rule ext)
    fix n
    consider (dst) "n \<in> f ` set xs" | (src) "n \<in> set xs" "n \<notin> f ` set xs"
      | (other) "n \<notin> set xs" "n \<notin> f ` set xs" by blast
    then show "(if n \<in> set (map f xs) then None
              else if f n \<in> set (map f xs) \<and> g (f n) = n \<and> ?S1 (f n) \<noteq> None then ?S1 (f n)
              else ?S1 n) = S n"
    proof cases
      case dst
      then show ?thesis using free by auto
    next
      case src
      have fn: "f n \<notin> set xs" "g (f n) = n" "S (f n) = None"
        using src(1) gf disj free by auto
      have "?S1 (f n) = S n" unfolding S1 using fn src(1) by auto
      moreover have "?S1 n = None" unfolding S1 using src(1) by simp
      ultimately show ?thesis using src fn by auto
    next
      case other
      have "\<not> (f n \<in> f ` set xs \<and> g (f n) = n)"
      proof
        assume h: "f n \<in> f ` set xs \<and> g (f n) = n"
        then obtain s where "s \<in> set xs" "f n = f s" by auto
        with gf h have "n = s" by metis
        with \<open>s \<in> set xs\<close> other(1) show False by simp
      qed
      moreover have "?S1 n = S n"
      proof -
        have "\<not> (g n \<in> set xs \<and> f (g n) = n)" using other(2) by (metis imageI)
        then show ?thesis unfolding S1 using other(1) by auto
      qed
      ultimately show ?thesis using other by auto
    qed
  qed
qed

lemma colon_prefix:
  assumes "CHR '':'' \<notin> set a" and "CHR '':'' \<notin> set b"
    and "a @ CHR '':'' # r = b @ CHR '':'' # r'"
  shows "a = b"
proof -
  have "takeWhile (\<lambda>c. c \<noteq> CHR '':'') (a @ CHR '':'' # r) = a"
    using assms(1) by (auto simp: takeWhile_tail takeWhile_eq_all_conv)
  moreover have "takeWhile (\<lambda>c. c \<noteq> CHR '':'') (b @ CHR '':'' # r') = b"
    using assms(2) by (auto simp: takeWhile_tail takeWhile_eq_all_conv)
  ultimately show ?thesis using assms(3) by simp
qed

lemma sources_form:
  "s \<in> set (sources H keys) \<Longrightarrow> \<exists>r. s = H @ CHR '':'' # r"
  by (auto simp: sources_def links_name_def timestamps_name_def root_clicks_name_def
      clicks_name_def truthy_def)

lemma batch_forward:
  "changeDomain_batch H H2 keys
     = map (\<lambda>s. RENAME s (H2 @ drop (length H) s)) (sources H keys)"
  by (simp add: changeDomain_batch_def sources_def links_name_def timestamps_name_def
      root_clicks_name_def clicks_name_def)

lemma batch_backward:
  "changeDomain_batch H2 H keys
     = map (\<lambda>s. RENAME (H2 @ drop (length H) s) s) (sources H keys)"
  by (simp add: changeDomain_batch_def sources_def links_name_def timestamps_name_def
      root_clicks_name_def clicks_name_def)

lemma fresh_sources:
  "fresh S H2 \<Longrightarrow> s \<in> set (sources H keys) \<Longrightarrow> S (H2 @ drop (length H) s) = None"
  by (auto simp: fresh_def sources_def links_name_def timestamps_name_def root_clicks_name_def
      clicks_name_def truthy_def)

lemma changeDomain_store:
  "zrange (timestamps_name H None) False S = Inr keys \<Longrightarrow>
     snd (changeDomain H H2 S) = snd (pipeline (changeDomain_batch H H2 keys) S)"
  by (simp add: changeDomain_def exec_def split: prod.splits sum.splits)

lemma changeDomain_absent:
  assumes "fresh S H"
  shows "snd (changeDomain H H2 S) = S"
proof -
  have z: "zrange (timestamps_name H None) False S = Inr []"
    using assms by (simp add: zrange_def fresh_def)
  show ?thesis
    using assms
    by (simp add: changeDomain_store [OF z] changeDomain_batch_def rename_def fresh_def)
qed

text \<open>
  Claim C5. For two hostnames (domain names: no colon, the separator of the collection
  names, occurs in them) of which the new one is fresh in the store,
  \<open>changeDomain(H, H2)\<close> followed by \<open>changeDomain(H2, H)\<close> leaves exactly the store
  it started from: links, the timestamps index, the root click log, every click log and
  everything else. This holds whatever \<open>H\<close> contains, also when a rename of the first
  pipeline fails because a key has no click log.
\<close>

theorem changeDomain_roundtrip:
  assumes hH: "is_hostname H" and hH2: "is_hostname H2" and fr: "fresh S H2"
  shows "snd (changeDomain H2 H (snd (changeDomain H H2 S))) = S"
proof (cases "H = H2")
  case True
  with fr show ?thesis by (simp add: changeDomain_absent)
next
  case False
  show ?thesis
  proof (cases "zrange (timestamps_name H None) False S")
    case (Inl e)
    then have "snd (changeDomain H H2 S) = S" by (simp add: changeDomain_def)
    with fr show ?thesis by (simp add: changeDomain_absent)
  next
    case (Inr keys)
    let ?f = "\<lambda>s. H2 @ drop (length H) s" and ?g = "\<lambda>s. H @ drop (length H2) s"
    let ?xs = "sources H keys"
    let ?S1 = "snd (pipeline (changeDomain_batch H H2 keys) S)"
    have gf: "\<forall>s\<in>set ?xs. ?g (?f s) = s"
    proof
      fix s assume "s \<in> set ?xs"
      then obtain r where "s = H @ CHR '':'' # r" using sources_form by blast
      then show "?g (?f s) = s" by simp
    qed
    have disj: "\<forall>s\<in>set ?xs. ?f s \<notin> set ?xs"
    proof
      fix s assume "s \<in> set ?xs"
      then obtain r where s: "s = H @ CHR '':'' # r" using sources_form by blast
      show "?f s \<notin> set ?xs"
      proof
        assume "?f s \<in> set ?xs"
        then obtain r' where "?f s = H @ CHR '':'' # r'" using sources_form by blast
        with s have "H2 @ CHR '':'' # r = H @ CHR '':'' # r'" by simp
        from colon_prefix [of H2 H r r'] hH hH2 this False show False
          by (simp add: is_hostname_def)
      qed
    qed
    have free: "\<forall>s\<in>set ?xs. S (?f s) = None"
      using fresh_sources [OF fr] by blast
    have S1: "snd (changeDomain H H2 S) = ?S1"
      by (rule changeDomain_store [OF Inr])
    have ts: "timestamps_name H None \<in> set ?xs" by (simp add: sources_def)
    have "?S1 (timestamps_name H2 None) = S (timestamps_name H None)"
    proof -
      have n: "timestamps_name H2 None = ?f (timestamps_name H None)"
        by (simp add: timestamps_name_def)
      have "?f (timestamps_name H None) \<notin> set ?xs" using disj ts by blast
      moreover have "?g (?f (timestamps_name H None)) = timestamps_name H None"
        using gf ts by blast
      moreover have "S (?f (timestamps_name H None)) = None" using free ts by blast
      ultimately show ?thesis
        unfolding n batch_forward [where H = H and ?H2.0 = H2] renames_effect [OF gf disj]
        using ts by auto
    qed
    then have z1: "zrange (timestamps_name H2 None) False ?S1 = Inr keys"
      using Inr by (simp add: zrange_def)
    have "snd (changeDomain H2 H ?S1) = snd (pipeline (changeDomain_batch H2 H keys) ?S1)"
      by (rule changeDomain_store [OF z1])
    also have "\<dots> = S"
      unfolding batch_forward [where H = H and ?H2.0 = H2]
        batch_backward [where H = H and ?H2.0 = H2]
      by (rule renames_roundtrip [OF gf disj free])
    finally show ?thesis by (simp add: S1)
  qed
qed

theorem changeDomain_roundtrip_witness:
  "is_hostname ''ex.test'' \<and> is_hostname ''new.test'' \<and> fresh store_ex ''new.test''
   \<and> changeDomain ''ex.test'' ''new.test'' store_ex
      = (Inr (NonNull [OK, OK, OK, OK]), store_moved)
   \<and> snd (changeDomain ''new.test'' ''ex.test'' store_moved) = store_ex"
proof -
  have a: "is_hostname ''ex.test''" and b: "is_hostname ''new.test''"
    by (simp_all add: is_hostname_def)
  have c: "fresh store_ex ''new.test''"
    by (simp add: fresh_def links_name_def timestamps_name_def root_clicks_name_def
        clicks_name_def truthy_def store_ex_def)
  have run: "changeDomain ''ex.test'' ''new.test'' store_ex
      = (Inr (NonNull [OK, OK, OK, OK]), store_moved)"
    by (simp add: changeDomain_def zrange_def exec_def changeDomain_batch_def rename_def
        links_name_def timestamps_name_def root_clicks_name_def clicks_name_def truthy_def
        store_ex_def store_moved_def fun_eq_iff)
  from changeDomain_roundtrip [OF a b c] run
  have "snd (changeDomain ''new.test'' ''ex.test'' store_moved) = store_ex" by simp
  with a b c run show ?thesis by blast
qed

section \<open>Listing the links of a project\<close>

lemma zrange_members:
  "zrange n rv S = Inr keys \<Longrightarrow> set keys = dom (map_of (zset_of S n))"
  by (force simp: zrange_def zset_of_def dom_map_of_conv_image_fst Let_def
      split: option.splits rvalue.splits if_splits)

text \<open>
  What the list operation returns when the index is a sorted set (or absent),
  \<open>links[slug]\<close> a hash (or absent) and at least one member of the index has a record:
  one entry for every member of the index, most recent first, the key with the fields of
  its record when it has one and the key alone when it has none.
\<close>

lemma getLinksForProject_entries:
  assumes "zrange (timestamps_name slug userId) True S = Inr keys"
    and "hash_or_absent S (links_name slug)"
    and "\<exists>k\<in>set keys. links S slug k \<noteq> None"
  shows "getLinksForProject slug userId S = Inr (map (\<lambda>k. (k, links S slug k)) keys)
       \<and> set keys = dom (timestamps S slug userId)"
proof -
  from assms(3) obtain k where k: "k \<in> set keys" "links S slug k \<noteq> None" by blast
  then obtain h where h: "S (links_name slug) = Some (Hash h)"
    by (auto simp: links_def hash_of_def split: option.splits rvalue.splits)
  have l: "links S slug = map_of h" by (simp add: links_def hash_of_def h)
  have nonempty: "keys \<noteq> []" using k by auto
  have some: "\<not> list_all (\<lambda>f. map_of h f = None) keys"
    using k l by (auto simp: list_all_iff)
  have "getLinksForProject slug userId S
      = Inr (map (\<lambda>k. (k, if k \<in> set keys then map_of h k else None)) keys)"
    using assms(1) nonempty some by (simp add: getLinksForProject_def hmget_def h)
  also have "map (\<lambda>k. (k, if k \<in> set keys then map_of h k else None)) keys
      = map (\<lambda>k. (k, links S slug k)) keys"
    by (simp add: l)
  finally show ?thesis
    using zrange_members [OF assms(1)] by (simp add: timestamps_def)
qed

text \<open>
  When no member of the index has a record, the reply to \<open>HMGET\<close> is \<open>null\<close> and reading
  \<open>metadata[key]\<close> throws.
\<close>

lemma getLinksForProject_no_record:
  assumes "zrange (timestamps_name slug userId) True S = Inr keys" and "keys \<noteq> []"
    and "hash_or_absent S (links_name slug)"
    and "list_all (\<lambda>k. links S slug k = None) keys"
  shows "getLinksForProject slug userId S = Inl TypeError"
  using assms
  by (auto simp: getLinksForProject_def hmget_def links_def hash_of_def hash_or_absent_def
      split: option.splits rvalue.splits)

text \<open>
  The store \<open>store_orphan\<close> is one the program reaches: \<open>gone123\<close> is created on
  \<open>ex.test\<close> without user id, then renamed to \<open>abc1234\<close> by an edit of \<open>user1\<close>, which
  removes the old key from the index of the user and leaves it in the primary index.
\<close>

lemma store_orphan_built:
  "store_orphan =
     snd (editLink env0 ''ex.test'' ''gone123'' ''abc1234'' ''https://example.com''
            ''Title of https://example.com'' 1000 (Some ''user1'')
       (snd (the (addLink env0 ''ex.test'' ''https://example.com'' (Some ''gone123'')
                    None None [] 1000 1001 Map.empty))))"
  by (simp add: store_orphan_def meta0_def addLink_def setKey_def hsetnx_def zadd_def
      editLink_def checkIfKeyExists_def hexists_def zcard_def exec_def editLink_batch_def
      hdel_def hset_def zrem_def truthy_def str_def env0_def links_name_def
      timestamps_name_def clicks_name_def fun_eq_iff)

text \<open>
  Claim C8. The index of \<open>ex.test\<close> holds a key, \<open>gone123\<close>, that has no record in
  \<open>links[ex.test]\<close>. In \<open>store_dangling\<close>, where another member has a record, the list
  returned has an entry for \<open>gone123\<close> made of the key alone, with no url, title or
  timestamp. In \<open>store_orphan\<close>, where \<open>gone123\<close> is the only member, the call does not
  return a list: it throws a \<open>TypeError\<close>.
\<close>

theorem getLinksForProject_dangling:
  "timestamps store_dangling ''ex.test'' None ''gone123'' = Some 500
   \<and> links store_dangling ''ex.test'' ''gone123'' = None
   \<and> getLinksForProject ''ex.test'' None store_dangling
      = Inr [(''abc1234'', Some meta0), (''gone123'', None)]
   \<and> timestamps store_orphan ''ex.test'' None ''gone123'' = Some 1001
   \<and> links store_orphan ''ex.test'' ''gone123'' = None
   \<and> getLinksForProject ''ex.test'' None store_orphan = Inl TypeError"
  by (simp add: store_dangling_def store_orphan_def timestamps_def zset_of_def links_def
      hash_of_def getLinksForProject_def zrange_def hmget_def timestamps_name_def
      links_name_def truthy_def)

section \<open>Computing the usage\<close>

text \<open>
  On a cache miss (no entry, or a cached \<open>0\<close>) \<open>getUsage\<close> is \<open>compute_usage\<close>: the sum,
  over the members of \<open>links:timestamps[hostname]\<close>, of the click events of each that are
  scored within the billing window; the sum is cached for 3600 seconds. The root click
  log is never read.
\<close>

lemma pipeline_zcount:
  "pipeline (map (\<lambda>k. ZCOUNT (n k) lo hi) ks) S
     = (map (\<lambda>k. map_sum id Num (zcount (n k) lo hi S)) ks, S)"
  by (induction ks) (simp_all add: id_def)

lemma first_error_counts:
  "first_error (map (\<lambda>k. Inr (Num (c k))) ks) = Inr (map (\<lambda>k. Num (c k)) ks)"
  by (induction ks) auto

lemma foldl_reply_num:
  "foldl (\<lambda>acc curr. acc + reply_num curr) a (map (\<lambda>k. Num (c k)) ks) = a + sum_list (map c ks)"
  by (induction ks arbitrary: a) auto

lemma zcount_length:
  "zset_or_absent S n \<Longrightarrow>
     zcount n lo hi S = Inr (int (length (filter (\<lambda>(m, s). lo \<le> s \<and> s \<le> hi) (zset_of S n))))"
  by (auto simp: zcount_def zset_or_absent_def zset_of_def split: option.splits rvalue.splits)

lemma compute_usage_sum:
  assumes "zrange (timestamps_name hostname None) False S = Inr keys"
    and "\<forall>k\<in>set keys. zset_or_absent S (clicks_name hostname k)"
  shows "compute_usage hostname b now S
     = (Inr (sum_list (map (window_count S hostname b now) keys)),
        setex (usage_name hostname) 3600 (sum_list (map (window_count S hostname b now) keys)) S)"
proof -
  obtain lo hi where w: "billing_window b now = (lo, hi)" by (cases "billing_window b now")
  have m: "map (\<lambda>k. map_sum id Num (zcount (clicks_name hostname k) lo hi S)) keys
      = map (\<lambda>k. Inr (Num (window_count S hostname b now k))) keys"
    using assms(2) by (auto simp: zcount_length window_count_def w)
  have "exec (map (\<lambda>link. ZCOUNT (clicks_name hostname link) lo hi) keys) S
      = (Inr (map (\<lambda>k. Num (window_count S hostname b now k)) keys), S)"
    using first_error_counts [of "window_count S hostname b now" keys]
    by (simp add: exec_def pipeline_zcount m)
  then show ?thesis
    using assms(1) by (simp add: compute_usage_def w foldl_reply_num Let_def)
qed

lemma getUsage_miss:
  "get (usage_name hostname) S = Inr None \<or> get (usage_name hostname) S = Inr (Some 0) \<Longrightarrow>
     getUsage hostname b now S = compute_usage hostname b now S"
  by (auto simp: getUsage_def)

lemma root_name_distinct:
  "usage_name h \<noteq> root_clicks_name h" "timestamps_name h U \<noteq> root_clicks_name h"
  "clicks_name h k \<noteq> root_clicks_name h"
proof -
  have "length (usage_name h) \<noteq> length (root_clicks_name h)"
    by (simp add: usage_name_def root_clicks_name_def)
  then show "usage_name h \<noteq> root_clicks_name h" by auto
qed (auto simp: timestamps_name_def clicks_name_def root_clicks_name_def)

lemma getUsage_ignores_root:
  "fst (getUsage hostname b now (S(root_clicks_name hostname := v)))
     = fst (getUsage hostname b now S)"
proof -
  let ?S' = "S(root_clicks_name hostname := v)"
  have g: "get (usage_name hostname) ?S' = get (usage_name hostname) S"
    by (simp add: get_def root_name_distinct)
  have z: "zrange (timestamps_name hostname None) False ?S'
      = zrange (timestamps_name hostname None) False S"
    by (simp add: zrange_def root_name_distinct)
  have c: "zcount (clicks_name hostname k) lo hi ?S' = zcount (clicks_name hostname k) lo hi S"
    for k lo hi by (simp add: zcount_def root_name_distinct)
  have e: "exec (map (\<lambda>link. ZCOUNT (clicks_name hostname link) lo hi) ks) T
      = (first_error (map (\<lambda>k. map_sum id Num (zcount (clicks_name hostname k) lo hi T)) ks), T)"
    for lo hi ks T
    by (simp add: exec_def pipeline_zcount)
  have "fst (compute_usage hostname b now ?S') = fst (compute_usage hostname b now S)"
    by (simp add: compute_usage_def z e c Let_def split: prod.splits sum.splits)
  then show ?thesis by (simp add: getUsage_def g split: sum.splits option.splits)
qed

text \<open>
  The scenario of the specification on \<open>store_ex\<close>: one key with three clicks early in
  the month, one click on the root, and a usage of \<open>3\<close>.
\<close>

lemma getUsage_scenario:
  "fst (getUsage ''ex.test'' None 5000 store_ex) = Inr 3"
  by (simp add: store_ex_def getUsage_def compute_usage_def get_def usage_name_def zrange_def
      timestamps_name_def truthy_def exec_def clicks_name_def zcount_def billing_window_5000)

text \<open>
  Without a billing cycle start the window ends at \<open>new Date(year, month + 1, 0)\<close>, the
  midnight that starts the last day of the month, so clicks during that day are not
  counted.
\<close>

lemma billing_window_nov30:
  "billing_window None 1669802400000 = (1667260800000, 1669766400000)"
  by code_simp

lemma same_month_nov30:
  "(getFullYear 1669798800000, getMonth 1669798800000) = (2022, 10)
   \<and> (getFullYear 1669799000000, getMonth 1669799000000) = (2022, 10)
   \<and> (getFullYear 1669799200000, getMonth 1669799200000) = (2022, 10)
   \<and> (getFullYear 1669802400000, getMonth 1669802400000) = (2022, 10)"
  by code_simp

text \<open>
  Claim C6. On 30 November 2022 at 10:00 the only key of \<open>ex.test\<close> has three clicks
  recorded that morning, in the current month, and the root has one; there is no cached
  usage, and \<open>getUsage\<close> returns \<open>0\<close>, not \<open>3\<close>.
\<close>

theorem getUsage_last_day_of_month:
  "(getFullYear 1669802400000, getMonth 1669802400000) = (2022, 10)
   \<and> map (\<lambda>(m, s). (getFullYear s, getMonth s)) (zset_of store_nov (clicks_name ''ex.test'' ''abc1234''))
      = [(2022, 10), (2022, 10), (2022, 10)]
   \<and> fst (getUsage ''ex.test'' None 1669802400000 store_nov) = Inr 0"
  using same_month_nov30
  by (simp add: store_nov_def getUsage_def compute_usage_def get_def usage_name_def zrange_def
      timestamps_name_def truthy_def exec_def clicks_name_def zcount_def zset_of_def
      billing_window_nov30)

end
